theory Spec2Isabelle
  imports Complex_Main "HOL-Library.Multiset"
begin

section \<open>Text as the evaluator sees it\<close>

text \<open>
  A Python \<open>str\<close> is a sequence of code points. The model covers the code points
  below 256, one \<^typ>\<open>char\<close> each (\<open>of_char\<close> is the code point). The classes
  below are the ones Python's \<open>re\<close> module and \<open>str\<close> methods use on that range:
  \<open>\s\<close> and \<open>str.isspace\<close> agree there, \<open>\d\<close> is the ten ASCII digits, \<open>\w\<close> is
  the alphanumerics and the underscore.
\<close>

definition is_space :: "char \<Rightarrow> bool" where
  "is_space c = (let n = (of_char c :: nat) in
     (9 \<le> n \<and> n \<le> 13) \<or> (28 \<le> n \<and> n \<le> 32) \<or> n = 133 \<or> n = 160)"

definition is_digit :: "char \<Rightarrow> bool" where
  "is_digit c = (let n = (of_char c :: nat) in 48 \<le> n \<and> n \<le> 57)"

definition is_word :: "char \<Rightarrow> bool" where
  "is_word c = (let n = (of_char c :: nat) in
     (48 \<le> n \<and> n \<le> 57) \<or> (65 \<le> n \<and> n \<le> 90) \<or> n = 95 \<or> (97 \<le> n \<and> n \<le> 122)
     \<or> n = 170 \<or> n = 178 \<or> n = 179 \<or> n = 181 \<or> n = 185 \<or> n = 186
     \<or> (188 \<le> n \<and> n \<le> 190) \<or> (192 \<le> n \<and> n \<le> 214)
     \<or> (216 \<le> n \<and> n \<le> 246) \<or> (248 \<le> n \<and> n \<le> 255))"

text \<open>\<open>str.lower\<close> on one code point below 256.\<close>

definition lower_char :: "char \<Rightarrow> char" where
  "lower_char c = (let n = (of_char c :: nat) in
     if (65 \<le> n \<and> n \<le> 90) \<or> (192 \<le> n \<and> n \<le> 222 \<and> n \<noteq> 215)
     then char_of (n + 32) else c)"

definition lower :: "string \<Rightarrow> string" where
  "lower s = map lower_char s"

text \<open>\<open>str.strip()\<close>: leading and trailing white space removed.\<close>

definition strip :: "string \<Rightarrow> string" where
  "strip s = rev (dropWhile is_space (rev (dropWhile is_space s)))"

text \<open>\<open>needle in haystack\<close> for strings.\<close>

fun contains :: "string \<Rightarrow> string \<Rightarrow> bool" where
  "contains needle [] = (needle = [])"
| "contains needle (c # cs) =
     (take (length needle) (c # cs) = needle \<or> contains needle cs)"

section \<open>Regular expressions with Python's backtracking order\<close>

text \<open>
  The patterns of \<open>_parse_response\<close> are kept as data and run by one matcher, so that each
  pattern below can be read against the source. A character class is one of the forms the
  patterns use; \<open>LitI\<close> is a literal under \<open>re.IGNORECASE\<close>, \<open>AnyChar\<close> is the dot under
  \<open>re.DOTALL\<close>.
\<close>

datatype cclass =
    Lit char
  | LitI char
  | Digit
  | Space
  | AnyChar
  | Range char char
  | OneOf "cclass list"

fun cmatch :: "cclass \<Rightarrow> char \<Rightarrow> bool" where
  "cmatch (Lit a) c = (c = a)"
| "cmatch (LitI a) c = (lower_char c = lower_char a)"
| "cmatch Digit c = is_digit c"
| "cmatch Space c = is_space c"
| "cmatch AnyChar c = True"
| "cmatch (Range lo hi) c = ((of_char lo :: nat) \<le> of_char c \<and> (of_char c :: nat) \<le> of_char hi)"
| "cmatch (OneOf cls) c = (\<exists>k \<in> set cls. cmatch k c)"

datatype rx =
    Chr cclass
  | Eps
  | Seq rx rx
  | Alt rx rx
  | Star rx
  | LazyStar rx
  | WordB
  | Dollar
  | Group nat rx

text \<open>\<open>r+\<close>, \<open>r?\<close>, \<open>r+?\<close> and a literal word, as the patterns write them.\<close>

definition Plus :: "rx \<Rightarrow> rx" where
  "Plus r = Seq r (Star r)"

definition Opt :: "rx \<Rightarrow> rx" where
  "Opt r = Alt r Eps"

definition LazyPlus :: "rx \<Rightarrow> rx" where
  "LazyPlus r = Seq r (LazyStar r)"

definition word_ci :: "string \<Rightarrow> rx" where
  "word_ci s = foldr (\<lambda>c r. Seq (Chr (LitI c)) r) s Eps"

text \<open>
  A matcher state: the character just before the current position (none at the start of
  the text), the text still to read, and the groups captured so far.
\<close>

record mstate =
  prev :: "char option"
  rest :: string
  caps :: "nat \<Rightarrow> string option"

definition at_boundary :: "mstate \<Rightarrow> bool" where
  "at_boundary s =
     ((case prev s of None \<Rightarrow> False | Some c \<Rightarrow> is_word c)
      \<noteq> (case rest s of [] \<Rightarrow> False | c # _ \<Rightarrow> is_word c))"

text \<open>
  \<open>rmatch r s\<close> lists every way \<open>r\<close> can match at \<open>s\<close>, in the order in which Python's
  backtracking matcher tries them: the head of the list is the match Python reports.
  A greedy star tries one more iteration before stopping, a lazy one stops first.
  An iteration that consumes nothing is not repeated.
\<close>

function rmatch :: "rx \<Rightarrow> mstate \<Rightarrow> mstate list" where
  "rmatch (Chr k) s =
     (case rest s of
        [] \<Rightarrow> []
      | c # cs \<Rightarrow> if cmatch k c then [s\<lparr>prev := Some c, rest := cs\<rparr>] else [])"
| "rmatch Eps s = [s]"
| "rmatch (Seq a b) s = concat (map (rmatch b) (rmatch a s))"
| "rmatch (Alt a b) s = rmatch a s @ rmatch b s"
| "rmatch (Star a) s =
     concat (map (\<lambda>t. if length (rest t) < length (rest s) then rmatch (Star a) t else [])
                 (rmatch a s)) @ [s]"
| "rmatch (LazyStar a) s =
     s # concat (map (\<lambda>t. if length (rest t) < length (rest s) then rmatch (LazyStar a) t else [])
                     (rmatch a s))"
| "rmatch WordB s = (if at_boundary s then [s] else [])"
| "rmatch Dollar s = (if rest s = [] \<or> rest s = [CHR 0x0A] then [s] else [])"
| "rmatch (Group n a) s =
     map (\<lambda>t. t\<lparr>caps := (caps t)(n \<mapsto> take (length (rest s) - length (rest t)) (rest s))\<rparr>)
         (rmatch a s)"
  by pat_completeness auto
termination
  by (relation "measures [\<lambda>(r, s). size r, \<lambda>(r, s). length (rest s)]") auto

text \<open>
  \<open>re.search\<close>: the first start position, from the left, at which the pattern matches;
  the match reported there is the first one in backtracking order.
\<close>

fun search_from :: "rx \<Rightarrow> char option \<Rightarrow> string \<Rightarrow> mstate option" where
  "search_from r p [] =
     (case rmatch r \<lparr>prev = p, rest = [], caps = Map.empty\<rparr> of
        m # _ \<Rightarrow> Some m | [] \<Rightarrow> None)"
| "search_from r p (c # cs) =
     (case rmatch r \<lparr>prev = p, rest = c # cs, caps = Map.empty\<rparr> of
        m # _ \<Rightarrow> Some m | [] \<Rightarrow> search_from r (Some c) cs)"

definition search :: "rx \<Rightarrow> string \<Rightarrow> mstate option" where
  "search r text = search_from r None text"

text \<open>
  \<open>re.split\<close> for a separator pattern that never matches the empty string (the only one
  used consumes a punctuation mark and white space): the pieces between successive
  leftmost matches. \<open>acc\<close> holds the current piece, reversed.
\<close>

function split_from :: "rx \<Rightarrow> char option \<Rightarrow> string \<Rightarrow> string \<Rightarrow> string list" where
  "split_from r p [] acc = [rev acc]"
| "split_from r p (c # cs) acc =
     (case rmatch r \<lparr>prev = p, rest = c # cs, caps = Map.empty\<rparr> of
        [] \<Rightarrow> split_from r (Some c) cs (c # acc)
      | m # _ \<Rightarrow>
          if length (rest m) < length (c # cs)
          then rev acc # split_from r (prev m) (rest m) []
          else split_from r (Some c) cs (c # acc))"
  by pat_completeness auto
termination
  by (relation "measure (\<lambda>(r, p, t, acc). length t)") auto

definition split :: "rx \<Rightarrow> string \<Rightarrow> string list" where
  "split r text = split_from r None text []"

section \<open>The response interpreter\<close>

text \<open>
  Exceptions are values: the constructor is the Python exception class, the argument the
  text \<open>str(e)\<close> gives. \<open>RemoteError\<close> stands for whatever the remote client raises.
\<close>

datatype exn =
    KeyError string
  | TypeError string
  | ValueError string
  | AttributeError string
  | RemoteError string

fun exn_str :: "exn \<Rightarrow> string" where
  "exn_str (KeyError k) = [CHR 0x27] @ k @ [CHR 0x27]"
| "exn_str (TypeError m) = m"
| "exn_str (ValueError m) = m"
| "exn_str (AttributeError m) = m"
| "exn_str (RemoteError m) = m"

definition bind_exn :: "exn + 'a \<Rightarrow> ('a \<Rightarrow> exn + 'b) \<Rightarrow> exn + 'b" where
  "bind_exn x f = (case x of Inl e \<Rightarrow> Inl e | Inr v \<Rightarrow> f v)"

text \<open>
  \<open>float(text)\<close> on the shape the score patterns capture: digits, then possibly a point and
  more digits. Every other text is reported as \<open>ValueError\<close> (Python accepts a few more
  shapes, such as a sign or an exponent; none of them can be captured here). A score is
  the exact value of the decimal numeral, a rational number: the rounding to the nearest
  binary double that Python performs is not modelled.
\<close>

definition digit_val :: "char \<Rightarrow> nat" where
  "digit_val c = of_char c - 48"

definition dec_value :: "string \<Rightarrow> nat" where
  "dec_value ds = foldl (\<lambda>n c. 10 * n + digit_val c) 0 ds"

definition decimal_shape :: "string \<Rightarrow> bool" where
  "decimal_shape w =
     (let ip = takeWhile is_digit w; fp = dropWhile is_digit w
      in ip \<noteq> [] \<and> (fp = [] \<or> (hd fp = CHR ''.'' \<and> list_all is_digit (drop 1 fp))))"

definition py_float :: "string \<Rightarrow> exn + rat" where
  "py_float w =
     (if decimal_shape w
      then (let ip = takeWhile is_digit w; fp = drop 1 (dropWhile is_digit w)
            in Inr (of_nat (dec_value ip) + of_nat (dec_value fp) / 10 ^ length fp))
      else Inl (ValueError (''could not convert string to float: '' @ [CHR 0x27] @ w @ [CHR 0x27])))"

text \<open>\<open>match.group(n)\<close> is \<open>None\<close> when the group took no part in the match.\<close>

definition float_group1 :: "mstate \<Rightarrow> exn + rat" where
  "float_group1 m =
     (case caps m 1 of
        None \<Rightarrow> Inl (TypeError ''float() argument must be a string or a real number, not NoneType'')
      | Some g \<Rightarrow> py_float g)"

text \<open>The five patterns of \<open>_parse_response\<close>, in the order of the source.\<close>

definition number_rx :: rx where
  \<comment> \<open>\<open>(\d+\.?\d*)\<close>\<close>
  "number_rx = Group 1 (Seq (Plus (Chr Digit)) (Seq (Opt (Chr (Lit CHR ''.''))) (Star (Chr Digit))))"

definition score_rx :: rx where
  \<comment> \<open>\<open>SCORE:\s*(\d+\.?\d*)\<close> with \<open>re.IGNORECASE\<close>\<close>
  "score_rx = Seq (word_ci ''SCORE:'') (Seq (Star (Chr Space)) number_rx)"

definition alt_rx :: rx where
  \<comment> \<open>\<open>(?:score|rating)[\s:]+(\d+\.?\d*)\<close> with \<open>re.IGNORECASE\<close>\<close>
  "alt_rx = Seq (Alt (word_ci ''score'') (word_ci ''rating''))
              (Seq (Plus (Chr (OneOf [Space, LitI CHR '':'']))) number_rx)"

definition num_rx :: rx where
  \<comment> \<open>\<open>\b([0-9]|10)(?:\.\d+)?\b\<close>\<close>
  "num_rx = Seq WordB
              (Seq (Group 1 (Alt (Chr (Range CHR ''0'' CHR ''9''))
                                 (Seq (Chr (Lit CHR ''1'')) (Chr (Lit CHR ''0'')))))
                (Seq (Opt (Seq (Chr (Lit CHR ''.'')) (Plus (Chr Digit)))) WordB))"

definition reason_rx :: rx where
  \<comment> \<open>\<open>REASON:\s*(.+?)(?:\n|$)\<close> with \<open>re.IGNORECASE | re.DOTALL\<close>\<close>
  "reason_rx = Seq (word_ci ''REASON:'')
                 (Seq (Star (Chr Space))
                   (Seq (Group 1 (LazyPlus (Chr AnyChar)))
                        (Alt (Chr (LitI CHR 0x0A)) Dollar)))"

definition sentence_rx :: rx where
  \<comment> \<open>\<open>[.!?]\s+\<close>\<close>
  "sentence_rx = Seq (Chr (OneOf [Lit CHR ''.'', Lit CHR ''!'', Lit CHR ''?''])) (Plus (Chr Space))"

text \<open>
  \<open>_parse_response(content, paper_title)\<close>. The title is only printed (the debug lines
  for a score of 0.0), so it is not a parameter here. The score is found by the first of
  three strategies that matches; the reason by the \<open>REASON:\<close> label or else from the
  sentences of the text. Both start from the defaults the source assigns first.
\<close>

definition parse_score :: "string \<Rightarrow> exn + rat" where
  "parse_score content =
     (let score = 0 in
      case search score_rx content of
        Some score_match \<Rightarrow> float_group1 score_match
      | None \<Rightarrow>
         (case search alt_rx content of
            Some alt_match \<Rightarrow> float_group1 alt_match
          | None \<Rightarrow>
             (case search num_rx content of
                Some num_match \<Rightarrow>
                  bind_exn (float_group1 num_match) (\<lambda>potential_score.
                    Inr (if 0 \<le> potential_score \<and> potential_score \<le> 10
                         then potential_score else score))
              | None \<Rightarrow> Inr score)))"

definition parse_reason :: "string \<Rightarrow> exn + string" where
  "parse_reason content =
     (let reason = ''No reason provided'' in
      case search reason_rx content of
        Some reason_match \<Rightarrow>
          (case caps reason_match 1 of
             None \<Rightarrow> Inl (AttributeError ''NoneType object has no attribute strip'')
           | Some g \<Rightarrow> Inr (strip g))
      | None \<Rightarrow>
          (let sentences = split sentence_rx content
           in if length sentences > 1 then Inr (take 100 (sentences ! 1))
              else Inr (take 100 content)))"

definition parse_response :: "string \<Rightarrow> exn + (rat \<times> string)" where
  "parse_response content =
     bind_exn (parse_score content) (\<lambda>score.
     bind_exn (parse_reason content) (\<lambda>reason.
       Inr (score, reason)))"

subsection \<open>The fallback strategy in the words of the specification\<close>

text \<open>
  A standalone integer token is a maximal run of digits with a word boundary on each
  side: no word character just before it and none just after it. \<open>first_token ok p t\<close>
  is the first such token of the text \<open>t\<close> (which follows the character \<open>p\<close>) that \<open>ok\<close>
  accepts. Two readings of "in the range 0 to 10": by the value of the token, and by its
  spelling, which must be one of \<open>0\<close>, \<dots>, \<open>9\<close>, \<open>10\<close>.
\<close>

definition word_before :: "char option \<Rightarrow> bool" where
  "word_before p = (case p of None \<Rightarrow> False | Some c \<Rightarrow> is_word c)"

definition standalone_token :: "char option \<Rightarrow> string \<Rightarrow> string option" where
  "standalone_token p t =
     (let run = takeWhile is_digit t; after = dropWhile is_digit t
      in if run \<noteq> [] \<and> \<not> word_before p \<and> (case after of [] \<Rightarrow> True | c # cs \<Rightarrow> \<not> is_word c)
         then Some run else None)"

fun first_token :: "(string \<Rightarrow> bool) \<Rightarrow> char option \<Rightarrow> string \<Rightarrow> string option" where
  "first_token ok p [] = None"
| "first_token ok p (c # cs) =
     (case standalone_token p (c # cs) of
        Some run \<Rightarrow> if ok run then Some run else first_token ok (Some c) cs
      | None \<Rightarrow> first_token ok (Some c) cs)"

text \<open>The same scan, giving the token together with the text that follows it.\<close>

fun first_token_after ::
  "(string \<Rightarrow> bool) \<Rightarrow> char option \<Rightarrow> string \<Rightarrow> (string \<times> string) option" where
  "first_token_after ok p [] = None"
| "first_token_after ok p (c # cs) =
     (case standalone_token p (c # cs) of
        Some run \<Rightarrow>
          if ok run then Some (run, dropWhile is_digit (c # cs))
          else first_token_after ok (Some c) cs
      | None \<Rightarrow> first_token_after ok (Some c) cs)"

definition value_in_range :: "string \<Rightarrow> bool" where
  "value_in_range run = (dec_value run \<le> 10)"

definition spelled_in_range :: "string \<Rightarrow> bool" where
  "spelled_in_range run = (length run = 1 \<or> run = ''10'')"

definition token_score :: "string option \<Rightarrow> rat" where
  "token_score tok = (case tok of Some run \<Rightarrow> of_nat (dec_value run) | None \<Rightarrow> 0)"

text \<open>A pattern without capturing groups, and the part of \<open>num_rx\<close> after its group.\<close>

fun groupless :: "rx \<Rightarrow> bool" where
  "groupless (Seq a b) = (groupless a \<and> groupless b)"
| "groupless (Alt a b) = (groupless a \<and> groupless b)"
| "groupless (Star a) = groupless a"
| "groupless (LazyStar a) = groupless a"
| "groupless (Group n a) = False"
| "groupless r = True"

definition fraction_rx :: rx where
  "fraction_rx = Seq (Opt (Seq (Chr (Lit CHR ''.'')) (Plus (Chr Digit)))) WordB"

section \<open>One evaluation task\<close>

text \<open>
  An item is a Python dictionary from field names to values; a value is a string or a
  float. \<open>paper['title'][:50]\<close>, which the diagnostics print, fails when the field is
  missing or is not a string.
\<close>

datatype pyval = Str string | Float rat

type_synonym paper = "string \<rightharpoonup> pyval"

definition title_prefix :: "paper \<Rightarrow> exn + string" where
  "title_prefix paper =
     (case paper ''title'' of
        None \<Rightarrow> Inl (KeyError ''title'')
      | Some (Str t) \<Rightarrow> Inr (take 50 t)
      | Some (Float x) \<Rightarrow> Inl (TypeError ''float object is not subscriptable''))"

text \<open>
  \<open>_build_prompt\<close> fills a fixed template with four values, in this order: the research
  context, the interests, \<open>paper['title']\<close> and \<open>paper['abstract']\<close>. The prompt is kept as
  these four values. A missing field raises \<open>KeyError\<close>.
\<close>

record prompt =
  p_context :: string
  p_interests :: string
  p_title :: pyval
  p_abstract :: pyval

definition build_prompt :: "paper \<Rightarrow> string \<Rightarrow> string \<Rightarrow> exn + prompt" where
  "build_prompt paper research_context user_interests =
     (case paper ''title'' of
        None \<Rightarrow> Inl (KeyError ''title'')
      | Some t \<Rightarrow>
         (case paper ''abstract'' of
            None \<Rightarrow> Inl (KeyError ''abstract'')
          | Some a \<Rightarrow> Inr \<lparr>p_context = research_context, p_interests = user_interests,
                            p_title = t, p_abstract = a\<rparr>))"

text \<open>
  The remote scorer is an oracle: for a prompt and the number of the attempt it either
  returns the text of the reply (\<open>response.choices[0].message.content\<close>) or raises. What a
  task does to the outside is recorded as a trace of remote calls and sleeps.
\<close>

datatype outcome = Returned string | Raised exn

datatype event = Call nat | Sleep rat

subsection \<open>Double arithmetic for the delay\<close>

text \<open>
  The delay is computed in binary doubles. Every double that occurs there is a
  non-negative multiple of \<open>1 / grid\<close>, where \<open>grid\<close> is \<open>2 ^ 53\<close>: a power of two, a value
  of \<open>random.random()\<close>, or a sum of two such. A double is kept as the rational number it
  denotes, and an operation rounds its exact result, \<open>n / grid\<close>, to 53 significant bits,
  ties to even (\<open>round53 n\<close>); \<open>fl\<close> is meant for such results only.
\<close>

fun bit_length :: "nat \<Rightarrow> nat" where
  "bit_length n = (if n = 0 then 0 else Suc (bit_length (n div 2)))"

definition grid :: nat where
  "grid = 2 ^ 53"

definition round53 :: "nat \<Rightarrow> nat" where
  "round53 n =
     (let s = bit_length n - 53; q = n div 2 ^ s; r = n mod 2 ^ s
      in if 2 * r > 2 ^ s \<or> (2 * r = 2 ^ s \<and> odd q) then (q + 1) * 2 ^ s else q * 2 ^ s)"

definition fl :: "rat \<Rightarrow> rat" where
  "fl x = of_nat (round53 (nat \<lfloor>x * of_nat grid\<rfloor>)) / of_nat grid"

definition fl_add :: "rat \<Rightarrow> rat \<Rightarrow> rat" where
  "fl_add x y = fl (x + y)"

definition fl_mul :: "rat \<Rightarrow> rat \<Rightarrow> rat" where
  "fl_mul x y = fl (x * y)"

text \<open>
  \<open>random.random()\<close> is a 53-bit integer, drawn by the generator, divided by \<open>2 ^ 53\<close>;
  the integer is the oracle. \<open>random.uniform(a, b)\<close> is \<open>a + (b - a) * random()\<close>.
\<close>

definition random_float :: "nat \<Rightarrow> rat" where
  "random_float bits = of_nat (bits mod grid) / of_nat grid"

definition uniform :: "rat \<Rightarrow> rat \<Rightarrow> rat \<Rightarrow> rat" where
  "uniform a b u = fl_add a (fl_mul (b - a) u)"

subsection \<open>The retry loop\<close>

definition max_retries :: nat where
  "max_retries = 5"

definition base_delay :: rat where
  "base_delay = 1"

definition is_rate_limit :: "string \<Rightarrow> bool" where
  \<comment> \<open>\<open>"rate_limit" in error_str.lower() or "429" in error_str\<close>\<close>
  "is_rate_limit error_str = (contains ''rate_limit'' (lower error_str) \<or> contains ''429'' error_str)"

text \<open>
  The body of the \<open>try\<close>: the remote call, the parsing of its reply, and, when
  \<open>self.verbose and self.sample_count < 3\<close> holds at that moment (\<open>show_sample\<close>; the counter
  is shared by all tasks and only selects what is printed), the sample print, which reads
  the first 50 characters of the title.
\<close>

definition try_body ::
  "paper \<Rightarrow> bool \<Rightarrow> outcome \<Rightarrow> exn + (rat \<times> string)" where
  "try_body paper show_sample response =
     (case response of
        Raised e \<Rightarrow> Inl e
      | Returned content \<Rightarrow>
          (case paper ''title'' of
             None \<Rightarrow> Inl (KeyError ''title'')
           | Some t \<Rightarrow>
               bind_exn (parse_response content) (\<lambda>(score, reason).
                 if show_sample
                 then bind_exn (title_prefix paper) (\<lambda>shown. Inr (score, reason))
                 else Inr (score, reason))))"

text \<open>
  The \<open>for attempt in range(max_retries)\<close> loop, from attempt \<open>attempt\<close> on. \<open>rand attempt\<close>
  is the integer the generator draws for the jitter of that attempt. The result is what
  the task returns (\<open>Inr\<close>, the score and the reason) or raises (\<open>Inl\<close>), with the trace.
\<close>

function attempt_loop ::
  "paper \<Rightarrow> bool \<Rightarrow> (nat \<Rightarrow> outcome) \<Rightarrow> (nat \<Rightarrow> nat) \<Rightarrow> nat
     \<Rightarrow> (exn + (rat \<times> string)) \<times> event list" where
  "attempt_loop paper show_sample remote rand attempt =
     (if attempt < max_retries then
        (case try_body paper show_sample (remote attempt) of
           Inr result \<Rightarrow> (Inr result, [Call attempt])
         | Inl e \<Rightarrow>
             if is_rate_limit (exn_str e) then
               if attempt < max_retries - 1 then
                 (let delay = fl_mul base_delay (2 ^ attempt);
                      delay = fl_add delay (uniform 0 1 (random_float (rand attempt)));
                      (result, trace) = attempt_loop paper show_sample remote rand (attempt + 1)
                  in (result, Call attempt # Sleep delay # trace))
               else (Inr (0, ''Rate limit exceeded''), [Call attempt])
             else
               (case title_prefix paper of
                  Inl e' \<Rightarrow> (Inl e', [Call attempt])
                | Inr shown \<Rightarrow> (Inr (0, ''Evaluation error''), [Call attempt])))
      else (Inr (0, ''Max retries exceeded''), []))"
  by pat_completeness auto
termination
  by (relation "measure (\<lambda>(paper, show_sample, remote, rand, attempt). max_retries - attempt)") auto

definition evaluate_single_paper ::
  "paper \<Rightarrow> string \<Rightarrow> string \<Rightarrow> bool \<Rightarrow> (prompt \<Rightarrow> nat \<Rightarrow> outcome) \<Rightarrow> (nat \<Rightarrow> nat)
     \<Rightarrow> (exn + (rat \<times> string)) \<times> event list" where
  "evaluate_single_paper paper research_context user_interests show_sample remote rand =
     (case build_prompt paper research_context user_interests of
        Inl e \<Rightarrow> (Inl e, [])
      | Inr prompt \<Rightarrow> attempt_loop paper show_sample (remote prompt) rand 0)"

text \<open>
  The two kinds of failure of a remote call, as the handler tells them apart; the delay
  slept after a throttled attempt; and the trace of the attempts \<open>a\<close> to \<open>k - 1\<close> when each
  was throttled and followed by its back-off sleep.
\<close>

definition throttled :: "outcome \<Rightarrow> bool" where
  "throttled response =
     (case response of Raised e \<Rightarrow> is_rate_limit (exn_str e) | Returned content \<Rightarrow> False)"

definition failed_otherwise :: "outcome \<Rightarrow> bool" where
  "failed_otherwise response =
     (case response of Raised e \<Rightarrow> \<not> is_rate_limit (exn_str e) | Returned content \<Rightarrow> False)"

definition jitter :: "(nat \<Rightarrow> nat) \<Rightarrow> nat \<Rightarrow> rat" where
  "jitter rand attempt = uniform 0 1 (random_float (rand attempt))"

definition slept_delay :: "(nat \<Rightarrow> nat) \<Rightarrow> nat \<Rightarrow> rat" where
  "slept_delay rand attempt = fl_add (fl_mul base_delay (2 ^ attempt)) (jitter rand attempt)"

definition backoff_trace :: "(nat \<Rightarrow> nat) \<Rightarrow> nat \<Rightarrow> nat \<Rightarrow> event list" where
  "backoff_trace rand a k = concat (map (\<lambda>j. [Call j, Sleep (slept_delay rand j)]) [a..<k])"

text \<open>
  Sample inputs: an item; remote scorers that always signal throttling, that recover at
  the fifth attempt, that fail otherwise, and that reject the request with a text in which
  the digits 429 occur; and two sequences of random integers, one with the largest value
  first and zero after it, one with \<open>2 ^ 52\<close> throughout (a jitter of one half).
\<close>

definition paper0 :: paper where
  "paper0 = [''title'' \<mapsto> Str ''Attention'', ''abstract'' \<mapsto> Str ''We study.'']"

definition throttling_remote :: "prompt \<Rightarrow> nat \<Rightarrow> outcome" where
  "throttling_remote pr k = Raised (RemoteError ''Error code: 429 - rate_limit_exceeded'')"

definition recovering_remote :: "prompt \<Rightarrow> nat \<Rightarrow> outcome" where
  "recovering_remote pr k =
     (if k < 4 then Raised (RemoteError ''Error code: 429 - rate_limit_exceeded'')
      else Returned ''SCORE: 9 REASON: Central to the topic.'')"

definition failing_remote :: "prompt \<Rightarrow> nat \<Rightarrow> outcome" where
  "failing_remote pr k = Raised (RemoteError ''Connection error.'')"

definition context_length_error :: string where
  "context_length_error =
     ''Error code: 400 - maximum context length is 128000 tokens, requested 142900 tokens''"

definition rejecting_remote :: "prompt \<Rightarrow> nat \<Rightarrow> outcome" where
  "rejecting_remote pr k = Raised (RemoteError context_length_error)"

definition edge_rand :: "nat \<Rightarrow> nat" where
  "edge_rand k = (if k = 0 then 2 ^ 53 - 1 else 0)"

definition half_rand :: "nat \<Rightarrow> nat" where
  "half_rand k = 2 ^ 52"

section \<open>The evaluation engine\<close>

text \<open>
  The items of a batch are dictionary objects owned by the caller. \<open>papers\<close> is the list
  of references to them (the same object may occur twice) and the heap gives the content
  of each object. \<open>evaluate_papers\<close> returns the heap it leaves behind together with the
  list of references it returns, or with the exception it raises.
\<close>

type_synonym ref = nat

type_synonym heap = "ref \<Rightarrow> paper"

text \<open>
  \<open>paper['relevance_score'] = result['score']\<close> and \<open>paper['relevance_reason'] =
  result['reason']\<close>: two stores into the object itself.
\<close>

definition attach :: "heap \<Rightarrow> ref \<Rightarrow> rat \<Rightarrow> string \<Rightarrow> heap" where
  "attach h p score reason =
     h(p := ((h p)(''relevance_score'' \<mapsto> Float score))(''relevance_reason'' \<mapsto> Str reason))"

text \<open>
  The loop over \<open>as_completed(future_to_paper)\<close>. \<open>order\<close> lists the tasks, by their index
  in \<open>papers\<close>, in the order in which they complete; \<open>results i\<close> is what \<open>future.result()\<close>
  gives for task \<open>i\<close>, a returned score and reason or a raised exception. The handler of
  such an exception prints the first 50 characters of the title, which can fail in turn;
  that failure leaves the function.
\<close>

fun collect ::
  "rat \<Rightarrow> ref list \<Rightarrow> (nat \<Rightarrow> exn + (rat \<times> string)) \<Rightarrow> nat list \<Rightarrow> heap \<Rightarrow> ref list
     \<Rightarrow> heap \<times> (exn + ref list)" where
  "collect threshold papers results [] h relevant_papers = (h, Inr relevant_papers)"
| "collect threshold papers results (i # order) h relevant_papers =
     (let paper = papers ! i in
      case results i of
        Inr (score, reason) \<Rightarrow>
          if score \<ge> threshold
          then collect threshold papers results order
                 (attach h paper score reason) (relevant_papers @ [paper])
          else collect threshold papers results order h relevant_papers
      | Inl e \<Rightarrow>
          (case title_prefix (h paper) of
             Inl e' \<Rightarrow> (h, Inl e')
           | Inr shown \<Rightarrow> collect threshold papers results order h relevant_papers))"

text \<open>
  \<open>relevant_papers.sort(key=lambda x: x['relevance_score'], reverse=True)\<close>. The keys are
  read first, one for each element; a missing key raises. Only floats are stored under
  this key by the loop above, so a string there is reported as the error of comparing it
  with a float. The sort is stable, and so is \<open>sort_key\<close>.
\<close>

definition relevance_key :: "heap \<Rightarrow> ref \<Rightarrow> exn + rat" where
  "relevance_key h p =
     (case h p ''relevance_score'' of
        None \<Rightarrow> Inl (KeyError ''relevance_score'')
      | Some (Float x) \<Rightarrow> Inr x
      | Some (Str s) \<Rightarrow> Inl (TypeError ''ordering not supported between str and float''))"

fun keys_of :: "heap \<Rightarrow> ref list \<Rightarrow> exn + (rat \<times> ref) list" where
  "keys_of h [] = Inr []"
| "keys_of h (p # ps) =
     bind_exn (relevance_key h p) (\<lambda>k.
     bind_exn (keys_of h ps) (\<lambda>keyed. Inr ((k, p) # keyed)))"

definition sort_descending :: "(rat \<times> ref) list \<Rightarrow> ref list" where
  "sort_descending keyed = map snd (sort_key (\<lambda>(k, p). - k) keyed)"

text \<open>
  Task \<open>i\<close> evaluates the item \<open>papers ! i\<close>; it has its own remote replies, random integers and
  sample-print flag. A task reads only the title and the abstract of its item, which the
  loop never stores to, so its result is computed from the heap of the call.
\<close>

definition task_result ::
  "heap \<Rightarrow> ref list \<Rightarrow> string \<Rightarrow> string \<Rightarrow> (nat \<Rightarrow> bool) \<Rightarrow> (nat \<Rightarrow> prompt \<Rightarrow> nat \<Rightarrow> outcome)
     \<Rightarrow> (nat \<Rightarrow> nat \<Rightarrow> nat) \<Rightarrow> nat \<Rightarrow> exn + (rat \<times> string)" where
  "task_result h papers research_context user_interests show_sample remote rand i =
     fst (evaluate_single_paper (h (papers ! i)) research_context user_interests
            (show_sample i) (remote i) (rand i))"

definition evaluate_papers ::
  "rat \<Rightarrow> heap \<Rightarrow> ref list \<Rightarrow> string \<Rightarrow> string \<Rightarrow> (nat \<Rightarrow> bool)
     \<Rightarrow> (nat \<Rightarrow> prompt \<Rightarrow> nat \<Rightarrow> outcome) \<Rightarrow> (nat \<Rightarrow> nat \<Rightarrow> nat) \<Rightarrow> nat list
     \<Rightarrow> heap \<times> (exn + ref list)" where
  "evaluate_papers threshold h papers research_context user_interests show_sample remote rand order =
     (case collect threshold papers
             (task_result h papers research_context user_interests show_sample remote rand)
             order h [] of
        (h', Inl e) \<Rightarrow> (h', Inl e)
      | (h', Inr relevant_papers) \<Rightarrow>
          (h', bind_exn (keys_of h' relevant_papers) (\<lambda>keyed. Inr (sort_descending keyed))))"

text \<open>
  What the claims about the engine speak of: a task result at or above the threshold, an
  item that carries a score at or above the threshold and a reason, and an item whose
  title is a string.
\<close>

definition passes :: "rat \<Rightarrow> exn + (rat \<times> string) \<Rightarrow> bool" where
  "passes threshold result =
     (case result of Inr (score, reason) \<Rightarrow> threshold \<le> score | Inl e \<Rightarrow> False)"



text \<open>
  The object \<open>p\<close> has been stored to: it is now the object as it was passed in, with the
  two fields set to the score and the reason of one of its tasks, a task whose score
  reached the threshold.
\<close>

definition stores ::
  "rat \<Rightarrow> ref list \<Rightarrow> (nat \<Rightarrow> exn + (rat \<times> string)) \<Rightarrow> nat list \<Rightarrow> heap \<Rightarrow> heap \<Rightarrow> ref
     \<Rightarrow> bool" where
  "stores threshold papers results order h h' p =
     (\<exists>i \<in> set order. papers ! i = p \<and>
        (case results i of
           Inr (score, reason) \<Rightarrow>
             threshold \<le> score \<and>
             h' p = ((h p)(''relevance_score'' \<mapsto> Float score))(''relevance_reason'' \<mapsto> Str reason)
         | Inl e \<Rightarrow> False))"

text \<open>
  A sample batch of two items; the first already has a field named \<open>relevance_score\<close>.
\<close>

definition heap1 :: heap where
  "heap1 r = (if r = 0 then paper0(''relevance_score'' \<mapsto> Str ''unrated'')
              else if r = 1 then [''title'' \<mapsto> Str ''Sorting'', ''abstract'' \<mapsto> Str ''We sort.'']
              else Map.empty)"

definition sample_remote :: "nat \<Rightarrow> prompt \<Rightarrow> nat \<Rightarrow> outcome" where
  "sample_remote i pr k =
     (if i = 0 then Returned ''SCORE: 9 REASON: Central to the topic.''
      else Returned ''SCORE: 2 REASON: Unrelated.'')"

definition never_show :: "nat \<Rightarrow> bool" where
  "never_show i = False"

definition sample_rand :: "nat \<Rightarrow> nat \<Rightarrow> nat" where
  "sample_rand i k = 2 ^ 52"

section \<open>The fallback score strategy\<close>

lemma is_digit_word: "is_digit c \<Longrightarrow> is_word c"
  by (auto simp: is_digit_def is_word_def Let_def)

lemma cmatch_range_digit: "cmatch (Range CHR ''0'' CHR ''9'') c = is_digit c"
  by (simp add: is_digit_def Let_def)

lemma not_word_dot: "\<not> is_word CHR ''.''"
  by (simp add: is_word_def)

lemma digit_1_0: "is_digit CHR ''1''" "is_digit CHR ''0''"
  by (simp_all add: is_digit_def)



declare rmatch.simps(5,6) [simp del]

lemma rmatch_Star_set:
  "m \<in> set (rmatch (Star a) s) \<longleftrightarrow>
     m = s \<or> (\<exists>t \<in> set (rmatch a s). length (rest t) < length (rest s) \<and> m \<in> set (rmatch (Star a) t))"
  by (subst rmatch.simps) (auto split: if_splits)

lemma rmatch_LazyStar_set:
  "m \<in> set (rmatch (LazyStar a) s) \<longleftrightarrow>
     m = s \<or> (\<exists>t \<in> set (rmatch a s). length (rest t) < length (rest s) \<and> m \<in> set (rmatch (LazyStar a) t))"
  by (subst rmatch.simps) (auto split: if_splits)

lemma rmatch_caps:
  "groupless r \<Longrightarrow> m \<in> set (rmatch r s) \<Longrightarrow> caps m = caps s"
proof (induction r s arbitrary: m rule: rmatch.induct)
  case (1 k s)
  then show ?case by (auto split: list.splits if_splits)
next
  case (3 a b s)
  then show ?case by auto
next
  case (4 a b s)
  then show ?case by auto
next
  case (5 a s)
  from "5.prems"(2) consider "m = s"
    | t where "t \<in> set (rmatch a s)" "length (rest t) < length (rest s)" "m \<in> set (rmatch (Star a) t)"
    using rmatch_Star_set[of m a s] by blast
  then show ?case
  proof cases
    case 1
    then show ?thesis by simp
  next
    case 2
    have "caps t = caps s" using "5.IH"(1)[OF _ 2(1)] "5.prems"(1) by simp
    moreover have "caps m = caps t" using "5.IH"(2)[OF 2(1) 2(2) _ 2(3)] "5.prems"(1) by simp
    ultimately show ?thesis by simp
  qed
next
  case (6 a s)
  from "6.prems"(2) consider "m = s"
    | t where "t \<in> set (rmatch a s)" "length (rest t) < length (rest s)" "m \<in> set (rmatch (LazyStar a) t)"
    using rmatch_LazyStar_set[of m a s] by blast
  then show ?case
  proof cases
    case 1
    then show ?thesis by simp
  next
    case 2
    have "caps t = caps s" using "6.IH"(1)[OF _ 2(1)] "6.prems"(1) by simp
    moreover have "caps m = caps t" using "6.IH"(2)[OF 2(1) 2(2) _ 2(3)] "6.prems"(1) by simp
    ultimately show ?thesis by simp
  qed
next
  case (9 n a s)
  then show ?case by simp
qed (auto split: if_splits)


lemma groupless_fraction_rx: "groupless (Seq (Opt (Seq (Chr (Lit CHR ''.'')) (Plus (Chr Digit)))) Eps)"
  by (simp add: Opt_def Plus_def)

lemma fraction_rx_caps: "m \<in> set (rmatch fraction_rx s) \<Longrightarrow> caps m = caps s"
proof -
  assume m: "m \<in> set (rmatch fraction_rx s)"
  have g: "groupless fraction_rx" by (simp add: fraction_rx_def Opt_def Plus_def)
  from rmatch_caps[OF g m] show ?thesis .
qed

lemma fraction_rx_nonempty:
  assumes "prev s = Some d" "is_word d"
  shows "rmatch fraction_rx s \<noteq> [] \<longleftrightarrow> (case rest s of [] \<Rightarrow> True | c # cs \<Rightarrow> \<not> is_word c)"
proof (cases "rest s")
  case Nil
  then have "at_boundary s" using assms by (simp add: at_boundary_def)
  then show ?thesis using Nil by (simp add: fraction_rx_def Opt_def)
next
  case (Cons c cs)
  show ?thesis
  proof (cases "is_word c")
    case True
    then have nb: "\<not> at_boundary s" using assms Cons by (simp add: at_boundary_def)
    have "c \<noteq> CHR ''.''" using True not_word_dot by auto
    then have "rmatch (Chr (Lit CHR ''.'')) s = []" using Cons by simp
    then show ?thesis using nb Cons True by (simp add: fraction_rx_def Opt_def)
  next
    case False
    then have "at_boundary s" using assms Cons by (simp add: at_boundary_def)
    then show ?thesis using Cons False by (simp add: fraction_rx_def Opt_def)
  qed
qed

lemma num_rx_fraction:
  "num_rx = Seq WordB
              (Seq (Group 1 (Alt (Chr (Range CHR ''0'' CHR ''9''))
                                 (Seq (Chr (Lit CHR ''1'')) (Chr (Lit CHR ''0'')))))
                   fraction_rx)"
  by (simp add: num_rx_def fraction_rx_def)

lemma rmatch_num_rx_nil: "rmatch num_rx \<lparr>prev = p, rest = [], caps = C\<rparr> = []"
  by (simp add: num_rx_fraction)

lemma rmatch_num_rx_cons:
  "rmatch num_rx \<lparr>prev = p, rest = c # t1, caps = Map.empty\<rparr> =
     (if is_digit c \<and> \<not> word_before p then
        rmatch fraction_rx \<lparr>prev = Some c, rest = t1, caps = [1 \<mapsto> [c]]\<rparr> @
        (case t1 of
           [] \<Rightarrow> []
         | d # t2 \<Rightarrow>
             if c = CHR ''1'' \<and> d = CHR ''0''
             then rmatch fraction_rx \<lparr>prev = Some d, rest = t2, caps = [1 \<mapsto> [c, d]]\<rparr>
             else [])
      else [])"
  using digit_1_0
  by (auto simp add: num_rx_fraction at_boundary_def word_before_def is_digit_word cmatch_range_digit
           simp del: cmatch.simps(6) split: list.splits option.splits)


lemma standalone_single:
  assumes "is_digit c" "\<not> word_before p" "case t1 of [] \<Rightarrow> True | d # t2 \<Rightarrow> \<not> is_word d"
  shows "standalone_token p (c # t1) = Some [c]"
  using assms is_digit_word
  by (cases t1) (auto simp: standalone_token_def Let_def)

lemma standalone_ten:
  assumes "\<not> word_before p" "case t2 of [] \<Rightarrow> True | e # t3 \<Rightarrow> \<not> is_word e"
  shows "standalone_token p (CHR ''1'' # CHR ''0'' # t2) = Some ''10''"
  using assms is_digit_word digit_1_0
  by (cases t2) (auto simp: standalone_token_def Let_def)

lemma standalone_not_spelled:
  assumes "is_word d" "\<not> (c = CHR ''1'' \<and> d = CHR ''0'')"
  shows "case standalone_token p (c # d # t2) of Some run \<Rightarrow> \<not> spelled_in_range run | None \<Rightarrow> True"
  using assms
  by (auto simp: standalone_token_def Let_def spelled_in_range_def split: option.splits if_splits)

lemma standalone_ten_blocked:
  assumes "is_word e"
  shows "case standalone_token p (CHR ''1'' # CHR ''0'' # e # t3) of
           Some run \<Rightarrow> \<not> spelled_in_range run | None \<Rightarrow> True"
  using assms digit_1_0 is_digit_word
  by (auto simp: standalone_token_def Let_def spelled_in_range_def split: option.splits if_splits)

lemma standalone_none:
  assumes "\<not> (is_digit c \<and> \<not> word_before p)"
  shows "standalone_token p (c # t1) = None"
  using assms by (auto simp: standalone_token_def Let_def)

lemma rmatch_num_rx_token:
  "case rmatch num_rx \<lparr>prev = p, rest = t, caps = Map.empty\<rparr> of
     [] \<Rightarrow> (case standalone_token p t of Some run \<Rightarrow> \<not> spelled_in_range run | None \<Rightarrow> True)
   | m # ms \<Rightarrow> (\<exists>run. standalone_token p t = Some run \<and> spelled_in_range run \<and> caps m 1 = Some run)"
proof (cases t)
  case Nil
  then show ?thesis by (simp add: rmatch_num_rx_nil standalone_token_def)
next
  case (Cons c t1)
  show ?thesis
  proof (cases "is_digit c \<and> \<not> word_before p")
    case False
    have "rmatch num_rx \<lparr>prev = p, rest = c # t1, caps = Map.empty\<rparr> = []"
      unfolding rmatch_num_rx_cons using False by (rule if_not_P)
    then show ?thesis using Cons standalone_none[OF False] by simp
  next
    case True
    let ?s1 = "\<lparr>prev = Some c, rest = t1, caps = [1 \<mapsto> [c]]\<rparr>"
    have wc: "is_word c" using True is_digit_word by simp
    show ?thesis
    proof (cases "case t1 of [] \<Rightarrow> True | d # t2 \<Rightarrow> \<not> is_word d")
      case A: True
      have "rmatch fraction_rx ?s1 \<noteq> []"
        using fraction_rx_nonempty[of ?s1 c] wc A by simp
      then obtain m ms where f: "rmatch fraction_rx ?s1 = m # ms" by (cases "rmatch fraction_rx ?s1") auto
      then have "m \<in> set (rmatch fraction_rx ?s1)" by simp
      from fraction_rx_caps[OF this] have cm: "caps m 1 = Some [c]" by simp
      have st: "standalone_token p (c # t1) = Some [c]"
        using standalone_single True A by simp
      show ?thesis using Cons True f cm st
        by (simp add: rmatch_num_rx_cons spelled_in_range_def)
    next
      case B: False
      then obtain d t2 where t1: "t1 = d # t2" and wd: "is_word d" by (cases t1) auto
      have f1: "rmatch fraction_rx ?s1 = []"
        using fraction_rx_nonempty[of ?s1 c] wc t1 wd by simp
      show ?thesis
      proof (cases "c = CHR ''1'' \<and> d = CHR ''0''")
        case ten: True
        let ?s2 = "\<lparr>prev = Some d, rest = t2, caps = [1 \<mapsto> [c, d]]\<rparr>"
        have run: "rmatch num_rx \<lparr>prev = p, rest = t, caps = Map.empty\<rparr> = rmatch fraction_rx ?s2"
          using Cons True t1 ten f1 by (simp add: rmatch_num_rx_cons)
        show ?thesis
        proof (cases "case t2 of [] \<Rightarrow> True | e # t3 \<Rightarrow> \<not> is_word e")
          case C: True
          have "rmatch fraction_rx ?s2 \<noteq> []"
            using fraction_rx_nonempty[of ?s2 d] wd C by simp
          then obtain m ms where f: "rmatch fraction_rx ?s2 = m # ms" by (cases "rmatch fraction_rx ?s2") auto
          then have "m \<in> set (rmatch fraction_rx ?s2)" by simp
          from fraction_rx_caps[OF this] have cm: "caps m 1 = Some [c, d]" by simp
          have st: "standalone_token p (c # d # t2) = Some ''10''"
            using standalone_ten[of p t2] True C ten by simp
          show ?thesis using run f cm st Cons t1 ten
            by (simp add: spelled_in_range_def)
        next
          case D: False
          then obtain e t3 where t2: "t2 = e # t3" and we: "is_word e" by (cases t2) auto
          have f2: "rmatch fraction_rx ?s2 = []"
            using fraction_rx_nonempty[of ?s2 d] wd t2 we by simp
          show ?thesis using run f2 Cons t1 t2 ten standalone_ten_blocked[OF we, of p t3]
            by simp
        qed
      next
        case notten: False
        have run: "rmatch num_rx \<lparr>prev = p, rest = t, caps = Map.empty\<rparr> = []"
          using Cons True t1 notten f1 by (auto simp: rmatch_num_rx_cons)
        show ?thesis using run Cons t1 standalone_not_spelled[OF wd notten, of p t2]
          by simp
      qed
    qed
  qed
qed


lemma search_from_num_rx:
  "case search_from num_rx p t of
     None \<Rightarrow> first_token spelled_in_range p t = None
   | Some m \<Rightarrow> (\<exists>run. first_token spelled_in_range p t = Some run \<and> caps m 1 = Some run)"
proof (induction t arbitrary: p)
  case Nil
  then show ?case by (simp add: rmatch_num_rx_nil)
next
  case (Cons c cs)
  show ?case
  proof (cases "rmatch num_rx \<lparr>prev = p, rest = c # cs, caps = Map.empty\<rparr>")
    case Nil
    with rmatch_num_rx_token[of p "c # cs"]
    have ft: "first_token spelled_in_range p (c # cs) = first_token spelled_in_range (Some c) cs"
      by (simp split: option.splits)
    have sf: "search_from num_rx p (c # cs) = search_from num_rx (Some c) cs"
      using Nil by simp
    show ?thesis unfolding ft sf by (rule Cons.IH)
  next
    case (Cons m ms)
    with rmatch_num_rx_token[of p "c # cs"] show ?thesis by auto
  qed
qed

lemma standalone_token_digits:
  "standalone_token p t = Some run \<Longrightarrow> run \<noteq> [] \<and> list_all is_digit run"
  by (auto simp: standalone_token_def Let_def list_all_iff split: if_splits dest: set_takeWhileD)

lemma first_token_digits:
  "first_token ok p t = Some run \<Longrightarrow> ok run \<and> run \<noteq> [] \<and> list_all is_digit run"
proof (induction t arbitrary: p)
  case Nil
  then show ?case by simp
next
  case (Cons c cs)
  then show ?case
    using standalone_token_digits[of p "c # cs"]
    by (auto split: option.splits if_splits)
qed

lemma py_float_digits:
  assumes "run \<noteq> []" "list_all is_digit run"
  shows "py_float run = Inr (of_nat (dec_value run))"
proof -
  have tw: "takeWhile is_digit run = run" and dw: "dropWhile is_digit run = []"
    using assms(2) by (simp_all add: list_all_iff)
  show ?thesis
    by (simp add: py_float_def decimal_shape_def dec_value_def tw dw assms(1))
qed

lemma digit_val_le_9: "is_digit c \<Longrightarrow> digit_val c \<le> 9"
  by (auto simp: is_digit_def digit_val_def Let_def)

lemma spelled_value_le_10:
  assumes "spelled_in_range run" "list_all is_digit run"
  shows "dec_value run \<le> 10"
proof -
  from assms(1) consider c where "run = [c]" | "run = ''10''"
    by (auto simp: spelled_in_range_def length_Suc_conv)
  then show ?thesis
  proof cases
    case 1
    then show ?thesis using assms(2) digit_val_le_9[of c] by (simp add: dec_value_def)
  next
    case 2
    then show ?thesis by (simp add: dec_value_def digit_val_def)
  qed
qed

lemma parse_score_fallback:
  assumes "search score_rx content = None" and "search alt_rx content = None"
  shows "parse_score content = Inr (token_score (first_token spelled_in_range None content))
       \<and> 0 \<le> token_score (first_token spelled_in_range None content)
       \<and> token_score (first_token spelled_in_range None content) \<le> 10"
proof (cases "search num_rx content")
  case None
  with search_from_num_rx[of None content]
  have "first_token spelled_in_range None content = None" by (simp add: search_def)
  then show ?thesis using assms None by (simp add: parse_score_def token_score_def)
next
  case (Some m)
  with search_from_num_rx[of None content]
  obtain run where r: "first_token spelled_in_range None content = Some run" "caps m 1 = Some run"
    by (auto simp: search_def)
  from first_token_digits[OF r(1)]
  have d: "spelled_in_range run" "run \<noteq> []" "list_all is_digit run" by simp_all
  have f: "float_group1 m = Inr (of_nat (dec_value run))"
    using r(2) py_float_digits[OF d(2,3)] by (simp add: float_group1_def)
  have le: "(of_nat (dec_value run) :: rat) \<le> 10"
    using spelled_value_le_10[OF d(1,3)] by (metis of_nat_le_iff of_nat_numeral)
  show ?thesis using assms Some f le r(1)
    by (simp add: parse_score_def token_score_def bind_exn_def)
qed

text \<open>
  C6, as the code has it. When neither label strategy matches, the score is the number
  written by the first standalone integer token that is spelled \<open>0\<close>, \<dots>, \<open>9\<close> or \<open>10\<close>, and
  it is 0 when the text has no such token; in both cases it lies between 0 and 10.
\<close>

theorem C6_fallback_first_token:
  assumes "search score_rx content = None" and "search alt_rx content = None"
  shows "parse_score content = Inr (token_score (first_token spelled_in_range None content))
       \<and> 0 \<le> token_score (first_token spelled_in_range None content)
       \<and> token_score (first_token spelled_in_range None content) \<le> 10"
  using assms by (rule parse_score_fallback)

section \<open>The interpreter always returns\<close>

text \<open>
  \<open>float\<close> is applied to a captured group only, and the groups of the two label patterns
  capture digits with at most one point after the first digits; the reason pattern always
  captures its group. So no branch of \<open>_parse_response\<close> raises.
\<close>

lemma rmatch_Chr_set:
  "t \<in> set (rmatch (Chr k) s) \<longleftrightarrow>
     (\<exists>c. rest s = c # rest t \<and> cmatch k c \<and> t = s\<lparr>prev := Some c, rest := rest t\<rparr>)"
  by (cases "rest s") auto

lemma rmatch_Seq_set:
  "m \<in> set (rmatch (Seq a b) s) \<longleftrightarrow> (\<exists>t \<in> set (rmatch a s). m \<in> set (rmatch b t))"
  by auto

lemma rmatch_Group_set:
  "m \<in> set (rmatch (Group n a) s) \<longleftrightarrow>
     (\<exists>t \<in> set (rmatch a s).
        m = t\<lparr>caps := (caps t)(n \<mapsto> take (length (rest s) - length (rest t)) (rest s))\<rparr>)"
  by auto

lemma search_from_Some:
  "search_from r p t = Some m \<Longrightarrow> \<exists>s. m \<in> set (rmatch r s)"
proof (induction t arbitrary: p)
  case Nil
  show ?case
  proof (cases "rmatch r \<lparr>prev = p, rest = [], caps = Map.empty\<rparr>")
    case Nil
    with Nil.prems show ?thesis by simp
  next
    case (Cons m' ms)
    with Nil.prems have "m = m'" by simp
    with Cons have "m \<in> set (rmatch r \<lparr>prev = p, rest = [], caps = Map.empty\<rparr>)" by simp
    then show ?thesis by blast
  qed
next
  case (Cons c cs)
  show ?case
  proof (cases "rmatch r \<lparr>prev = p, rest = c # cs, caps = Map.empty\<rparr>")
    case Nil
    with Cons.prems have "search_from r (Some c) cs = Some m" by simp
    from Cons.IH[OF this] show ?thesis .
  next
    case (Cons m' ms)
    with Cons.prems have "m = m'" by simp
    with Cons have "m \<in> set (rmatch r \<lparr>prev = p, rest = c # cs, caps = Map.empty\<rparr>)" by simp
    then show ?thesis by blast
  qed
qed

lemma star_digit_consumed:
  "m \<in> set (rmatch (Star (Chr Digit)) s) \<Longrightarrow> \<exists>w. rest s = w @ rest m \<and> list_all is_digit w"
proof (induction "length (rest s)" arbitrary: s rule: less_induct)
  case less
  from less.prems consider "m = s"
    | t where "t \<in> set (rmatch (Chr Digit) s)" "length (rest t) < length (rest s)"
              "m \<in> set (rmatch (Star (Chr Digit)) t)"
    using rmatch_Star_set[of m "Chr Digit" s] by blast
  then show ?case
  proof cases
    case 1
    then show ?thesis by simp
  next
    case 2
    from less.hyps[OF 2(2) 2(3)] obtain w where w: "rest t = w @ rest m" "list_all is_digit w" by blast
    from 2(1) obtain d where "rest s = d # rest t" "is_digit d"
      unfolding rmatch_Chr_set by auto
    with w have "rest s = (d # w) @ rest m \<and> list_all is_digit (d # w)" by simp
    then show ?thesis by blast
  qed
qed

lemma not_digit_dot: "\<not> is_digit CHR ''.''"
  by (simp add: is_digit_def)

lemma decimal_shape_digits: "w \<noteq> [] \<Longrightarrow> list_all is_digit w \<Longrightarrow> decimal_shape w"
proof -
  assume a: "w \<noteq> []" "list_all is_digit w"
  then have tw: "takeWhile is_digit w = w" and dw: "dropWhile is_digit w = []"
    by (simp_all add: list_all_iff)
  show ?thesis by (simp add: decimal_shape_def tw dw a(1))
qed

lemma decimal_shape_point:
  assumes "w1 \<noteq> []" "list_all is_digit w1" "list_all is_digit w2"
  shows "decimal_shape (w1 @ CHR ''.'' # w2)"
proof -
  have tw: "takeWhile is_digit (w1 @ CHR ''.'' # w2) = w1"
    using assms(2) not_digit_dot by (simp add: takeWhile_append2 list_all_iff)
  have dw: "dropWhile is_digit (w1 @ CHR ''.'' # w2) = CHR ''.'' # w2"
    using assms(2) not_digit_dot by (simp add: dropWhile_append2 list_all_iff)
  show ?thesis using assms(1,3) by (simp add: decimal_shape_def tw dw)
qed

lemma number_rx_shape:
  assumes "m \<in> set (rmatch number_rx s)"
  shows "\<exists>w. caps m 1 = Some w \<and> decimal_shape w"
proof -
  from assms obtain t4 where
      b: "t4 \<in> set (rmatch (Seq (Seq (Chr Digit) (Star (Chr Digit)))
                           (Seq (Opt (Chr (Lit CHR ''.''))) (Star (Chr Digit)))) s)"
    and m4: "m = t4\<lparr>caps := (caps t4)(1 \<mapsto> take (length (rest s) - length (rest t4)) (rest s))\<rparr>"
    unfolding number_rx_def Plus_def rmatch_Group_set by blast
  from b obtain t2 where
      b1: "t2 \<in> set (rmatch (Seq (Chr Digit) (Star (Chr Digit))) s)"
    and b2: "t4 \<in> set (rmatch (Seq (Opt (Chr (Lit CHR ''.''))) (Star (Chr Digit))) t2)"
    using rmatch_Seq_set by blast
  from b1 obtain t1 where
      t1: "t1 \<in> set (rmatch (Chr Digit) s)"
    and t2: "t2 \<in> set (rmatch (Star (Chr Digit)) t1)"
    using rmatch_Seq_set by blast
  from b2 obtain t3 where
      t3: "t3 \<in> set (rmatch (Opt (Chr (Lit CHR ''.''))) t2)"
    and t4: "t4 \<in> set (rmatch (Star (Chr Digit)) t3)"
    using rmatch_Seq_set by blast
  from m4 have m: "caps m 1 = Some (take (length (rest s) - length (rest t4)) (rest s))" by simp
  from t1 obtain d where d: "rest s = d # rest t1" "is_digit d"
    unfolding rmatch_Chr_set by auto
  from star_digit_consumed[OF t2] obtain w1 where w1: "rest t1 = w1 @ rest t2" "list_all is_digit w1"
    by blast
  from star_digit_consumed[OF t4] obtain w2 where w2: "rest t3 = w2 @ rest t4" "list_all is_digit w2"
    by blast
  from t3 consider "rest t2 = rest t3" | "rest t2 = CHR ''.'' # rest t3"
    unfolding Opt_def rmatch.simps(4) set_append Un_iff rmatch_Chr_set by auto
  then show ?thesis
  proof cases
    case 1
    then have "rest s = (d # w1 @ w2) @ rest t4" using d w1 w2 by simp
    then have "take (length (rest s) - length (rest t4)) (rest s) = d # w1 @ w2" by simp
    moreover have "decimal_shape (d # w1 @ w2)"
      using d(2) w1(2) w2(2) by (intro decimal_shape_digits) simp_all
    ultimately show ?thesis using m by simp
  next
    case 2
    then have "rest s = ((d # w1) @ CHR ''.'' # w2) @ rest t4" using d w1 w2 by simp
    then have "take (length (rest s) - length (rest t4)) (rest s) = (d # w1) @ CHR ''.'' # w2" by simp
    moreover have "decimal_shape ((d # w1) @ CHR ''.'' # w2)"
      using d(2) w1(2) w2(2) by (intro decimal_shape_point) simp_all
    ultimately show ?thesis using m by simp
  qed
qed

lemma float_group1_number:
  assumes "m \<in> set (rmatch (Seq a (Seq b number_rx)) s)"
  shows "\<exists>x. float_group1 m = Inr x"
proof -
  from assms obtain t where "m \<in> set (rmatch number_rx t)"
    unfolding rmatch_Seq_set by blast
  from number_rx_shape[OF this] show ?thesis
    by (auto simp: float_group1_def py_float_def Let_def)
qed

lemma reason_rx_group:
  assumes "m \<in> set (rmatch reason_rx s)"
  shows "\<exists>g. caps m 1 = Some g"
proof -
  let ?e = "Alt (Chr (LitI CHR 0x0A)) Dollar"
  from assms obtain t0 t where t: "t \<in> set (rmatch (Group 1 (LazyPlus (Chr AnyChar))) t0)"
      and m: "m \<in> set (rmatch ?e t)"
    unfolding reason_rx_def rmatch_Seq_set by blast
  from t obtain g where "caps t 1 = Some g" unfolding rmatch_Group_set by auto
  moreover have "caps m = caps t" using rmatch_caps[OF _ m] by simp
  ultimately show ?thesis by simp
qed

lemma parse_score_returns: "\<exists>score. parse_score content = Inr score"
proof (cases "search score_rx content")
  case (Some m)
  then obtain s where "m \<in> set (rmatch score_rx s)"
    using search_from_Some[of score_rx None content m] by (auto simp: search_def)
  then have "\<exists>x. float_group1 m = Inr x"
    unfolding score_rx_def by (rule float_group1_number)
  then show ?thesis using Some by (auto simp: parse_score_def)
next
  case None
  note n1 = this
  show ?thesis
  proof (cases "search alt_rx content")
    case (Some m)
    then obtain s where "m \<in> set (rmatch alt_rx s)"
      using search_from_Some[of alt_rx None content m] by (auto simp: search_def)
    then have "\<exists>x. float_group1 m = Inr x"
      unfolding alt_rx_def by (rule float_group1_number)
    then show ?thesis using n1 Some by (auto simp: parse_score_def)
  next
    case None
    from parse_score_fallback[OF n1 None] show ?thesis by blast
  qed
qed

text \<open>
  Without a \<open>REASON:\<close> match the reason is the second piece of the split text, cut to 100
  characters, when there are at least two pieces, and the first 100 characters of the
  text otherwise. The default assigned first is not among the cases.
\<close>

lemma parse_reason_without_label:
  assumes "search reason_rx content = None"
  shows "parse_reason content =
           Inr (if length (split sentence_rx content) > 1
                then take 100 (split sentence_rx content ! 1)
                else take 100 content)"
  using assms by (simp add: parse_reason_def Let_def)

lemma parse_reason_returns: "\<exists>reason. parse_reason content = Inr reason"
proof (cases "search reason_rx content")
  case (Some m)
  then obtain s where "m \<in> set (rmatch reason_rx s)"
    using search_from_Some[of reason_rx None content m] by (auto simp: search_def)
  from reason_rx_group[OF this] show ?thesis using Some by (auto simp: parse_reason_def)
next
  case None
  then show ?thesis by (simp add: parse_reason_def Let_def)
qed

lemma parse_response_returns: "\<exists>score reason. parse_response content = Inr (score, reason)"
  using parse_score_returns[of content] parse_reason_returns[of content]
  by (auto simp: parse_response_def bind_exn_def)

section \<open>The fraction of a decimal is dropped\<close>

lemma star_digit_head:
  "list_all is_digit ds \<Longrightarrow> (case post of [] \<Rightarrow> True | c # cs \<Rightarrow> \<not> is_digit c) \<Longrightarrow>
   rest s = ds @ post \<Longrightarrow>
   \<exists>m ms. rmatch (Star (Chr Digit)) s = m # ms \<and> rest m = post \<and> caps m = caps s
         \<and> prev m = (if ds = [] then prev s else Some (last ds))"
proof (induction ds arbitrary: s)
  case Nil
  then have "rmatch (Chr Digit) s = []" by (cases post) simp_all
  then have "rmatch (Star (Chr Digit)) s = [s]" by (subst rmatch.simps) simp
  then show ?case using Nil by simp
next
  case (Cons d ds)
  let ?t = "s\<lparr>prev := Some d, rest := ds @ post\<rparr>"
  have d: "is_digit d" "list_all is_digit ds" using Cons.prems(1) by simp_all
  have "rest ?t = ds @ post" by simp
  from Cons.IH[OF d(2) Cons.prems(2) this] obtain m ms where
    m: "rmatch (Star (Chr Digit)) ?t = m # ms" "rest m = post" "caps m = caps s"
       "prev m = (if ds = [] then Some d else Some (last ds))" by auto
  have "rmatch (Star (Chr Digit)) s = (m # ms) @ [s]"
    using m(1) by (subst rmatch.simps) (simp add: Cons.prems(3) d(1))
  then show ?case using m by auto
qed

lemma fraction_rx_head:
  assumes "prev s = Some e" "is_word e"
    and "rest s = CHR ''.'' # fd @ post" "fd \<noteq> []" "list_all is_digit fd"
    and "case post of [] \<Rightarrow> True | c # cs \<Rightarrow> \<not> is_word c"
  shows "\<exists>m ms. rmatch fraction_rx s = m # ms \<and> rest m = post \<and> caps m = caps s"
proof -
  obtain d ds where f: "fd = d # ds" using assms(4) by (cases fd) auto
  have dd: "is_digit d" "list_all is_digit ds" using assms(5) f by simp_all
  have pd: "case post of [] \<Rightarrow> True | c # cs \<Rightarrow> \<not> is_digit c"
    using assms(6) is_digit_word by (cases post) auto
  let ?s3 = "s\<lparr>prev := Some CHR ''.'', rest := d # ds @ post\<rparr>\<lparr>prev := Some d, rest := ds @ post\<rparr>"
  have "rest ?s3 = ds @ post" by simp
  from star_digit_head[OF dd(2) pd this] obtain m ms where
    m: "rmatch (Star (Chr Digit)) ?s3 = m # ms" "rest m = post" "caps m = caps s"
       "prev m = (if ds = [] then Some d else Some (last ds))" by auto
  have "\<exists>w. prev m = Some w \<and> is_word w"
    using m(4) dd is_digit_word by (auto simp: list_all_iff)
  then have bm: "at_boundary m" using m(2) assms(6) by (cases post) (auto simp: at_boundary_def)
  have "rmatch fraction_rx s = m # concat (map (rmatch WordB) ms) @ rmatch WordB s"
    using bm m(1) by (simp add: fraction_rx_def Opt_def Plus_def assms(3) f dd(1))
  then show ?thesis using m(2,3) by blast
qed

lemma rmatch_num_rx_decimal:
  assumes "standalone_token p t = Some run" "spelled_in_range run"
    and "dropWhile is_digit t = CHR ''.'' # fd @ post" "fd \<noteq> []" "list_all is_digit fd"
    and "case post of [] \<Rightarrow> True | c # cs \<Rightarrow> \<not> is_word c"
  shows "\<exists>m ms. rmatch num_rx \<lparr>prev = p, rest = t, caps = Map.empty\<rparr> = m # ms
               \<and> caps m 1 = Some run \<and> rest m = post"
proof -
  have run: "run = takeWhile is_digit t" "run \<noteq> []" "\<not> word_before p"
    using assms(1) by (auto simp: standalone_token_def Let_def split: if_splits)
  have t: "t = run @ CHR ''.'' # fd @ post"
    using takeWhile_dropWhile_id[of is_digit t] run(1) assms(3) by simp
  have digs: "list_all is_digit run" using run(1) by (auto simp: list_all_iff dest: set_takeWhileD)
  from assms(2) consider c where "run = [c]" | "run = ''10''"
    by (auto simp: spelled_in_range_def length_Suc_conv)
  then show ?thesis
  proof cases
    case 1
    then have c: "is_digit c" using digs by simp
    let ?s1 = "\<lparr>prev = Some c, rest = CHR ''.'' # fd @ post, caps = [1 \<mapsto> [c]]\<rparr>"
    from fraction_rx_head[of ?s1 c fd post] c is_digit_word assms(4,5,6)
    obtain m ms where m: "rmatch fraction_rx ?s1 = m # ms" "rest m = post" "caps m = [1 \<mapsto> [c]]"
      by auto
    have "rmatch num_rx \<lparr>prev = p, rest = t, caps = Map.empty\<rparr> = rmatch fraction_rx ?s1"
      using c run(3) unfolding t 1 by (simp add: rmatch_num_rx_cons)
    then show ?thesis using m 1 by simp
  next
    case 2
    let ?s1 = "\<lparr>prev = Some CHR ''1'', rest = CHR ''0'' # CHR ''.'' # fd @ post, caps = [1 \<mapsto> ''1'']\<rparr>"
    let ?s2 = "\<lparr>prev = Some CHR ''0'', rest = CHR ''.'' # fd @ post, caps = [1 \<mapsto> ''10'']\<rparr>"
    have w0: "is_word CHR ''0''" "is_word CHR ''1''" using digit_1_0 is_digit_word by simp_all
    have f1: "rmatch fraction_rx ?s1 = []"
      using fraction_rx_nonempty[of ?s1 "CHR ''1''"] w0 by simp
    from fraction_rx_head[of ?s2 "CHR ''0''" fd post] w0 assms(4,5,6)
    obtain m ms where m: "rmatch fraction_rx ?s2 = m # ms" "rest m = post" "caps m = [1 \<mapsto> ''10'']"
      by auto
    have "rmatch num_rx \<lparr>prev = p, rest = t, caps = Map.empty\<rparr> = rmatch fraction_rx ?s2"
      using digit_1_0 run(3) f1 unfolding t 2 by (simp add: rmatch_num_rx_cons)
    then show ?thesis using m 2 by simp
  qed
qed

lemma first_token_after_fst:
  "map_option fst (first_token_after ok p t) = first_token ok p t"
  by (induction t arbitrary: p) (auto split: option.splits)

lemma search_from_num_rx_decimal:
  assumes "fd \<noteq> []" "list_all is_digit fd"
    and "case post of [] \<Rightarrow> True | c # cs \<Rightarrow> \<not> is_word c"
  shows "first_token_after spelled_in_range p t = Some (run, CHR ''.'' # fd @ post) \<Longrightarrow>
         \<exists>m. search_from num_rx p t = Some m \<and> caps m 1 = Some run \<and> rest m = post"
proof (induction t arbitrary: p)
  case Nil
  then show ?case by simp
next
  case (Cons c cs)
  show ?case
  proof (cases "rmatch num_rx \<lparr>prev = p, rest = c # cs, caps = Map.empty\<rparr>")
    case Nil
    with rmatch_num_rx_token[of p "c # cs"] Cons.prems
    have "first_token_after spelled_in_range (Some c) cs = Some (run, CHR ''.'' # fd @ post)"
      by (simp split: option.splits if_splits)
    from Cons.IH[OF this] Nil show ?thesis by simp
  next
    case (Cons m ms)
    with rmatch_num_rx_token[of p "c # cs"]
    obtain run' where r: "standalone_token p (c # cs) = Some run'" "spelled_in_range run'" by auto
    with Cons.prems have e: "run' = run" "dropWhile is_digit (c # cs) = CHR ''.'' # fd @ post"
      by simp_all
    from rmatch_num_rx_decimal[OF r(1,2) e(2) assms] e(1) Cons
    show ?thesis by simp
  qed
qed

text \<open>
  C10, as the code has it. Let no label match, and let the first standalone integer token
  spelled \<open>0\<close>, \<dots>, \<open>9\<close> or \<open>10\<close> be followed by a point and digits, with no word character
  after them: a decimal such as \<open>9.7\<close> or \<open>10.5\<close>, alone or inside a sentence. Then the
  pattern matches the decimal up to its last digit, and the score is the number before
  the point alone: the digits after the point are dropped.
\<close>

theorem C10_fraction_discarded:
  assumes "search score_rx content = None" and "search alt_rx content = None"
    and "first_token_after spelled_in_range None content = Some (run, CHR ''.'' # fd @ post)"
    and "fd \<noteq> []" and "list_all is_digit fd"
    and "case post of [] \<Rightarrow> True | c # cs \<Rightarrow> \<not> is_word c"
  shows "parse_score content = Inr (of_nat (dec_value run))
       \<and> (\<exists>m. search num_rx content = Some m \<and> caps m 1 = Some run \<and> rest m = post)"
proof -
  have "first_token spelled_in_range None content = Some run"
    using first_token_after_fst[of spelled_in_range None content] assms(3) by simp
  with parse_score_fallback[OF assms(1,2)]
  have "parse_score content = Inr (of_nat (dec_value run))" by (simp add: token_score_def)
  moreover from search_from_num_rx_decimal[OF assms(4,5,6) assms(3)]
  have "\<exists>m. search num_rx content = Some m \<and> caps m 1 = Some run \<and> rest m = post"
    by (simp add: search_def)
  ultimately show ?thesis by simp
qed

section \<open>The doubles of the back-off delay\<close>

declare bit_length.simps [simp del]

lemma grid_pos: "0 < grid"
  by (simp add: grid_def)

lemma bit_length_le: "n < 2 ^ m \<Longrightarrow> bit_length n \<le> m"
proof (induction m arbitrary: n)
  case 0
  then show ?case by (simp add: bit_length.simps)
next
  case (Suc m)
  show ?case
  proof (cases "n = 0")
    case True
    then show ?thesis by (simp add: bit_length.simps)
  next
    case False
    have "n div 2 < 2 ^ m" using Suc.prems by simp
    from Suc.IH[OF this] False show ?thesis by (subst bit_length.simps) simp
  qed
qed

lemma bit_length_gt: "2 ^ m \<le> n \<Longrightarrow> m < bit_length n"
proof (induction m arbitrary: n)
  case 0
  then show ?case by (subst bit_length.simps) simp
next
  case (Suc m)
  have "(0::nat) < 2 ^ Suc m" by simp
  with Suc.prems have n0: "n \<noteq> 0" by linarith
  have "2 ^ m \<le> n div 2" using Suc.prems by simp
  from Suc.IH[OF this] n0 show ?case by (subst bit_length.simps) simp
qed

lemma bit_length_eq: "2 ^ m \<le> n \<Longrightarrow> n < 2 ^ Suc m \<Longrightarrow> bit_length n = Suc m"
  using bit_length_le[of n "Suc m"] bit_length_gt[of m n] by simp

lemma round53_small: "n < grid \<Longrightarrow> round53 n = n"
  using bit_length_le[of n 53] by (simp add: round53_def grid_def)

text \<open>
  In the binade of \<open>2 ^ k\<close> the doubles are the multiples of \<open>2 ^ Suc k\<close> on the grid, and
  rounding does not cross such a multiple.
\<close>

lemma round53_between:
  assumes "grid * 2 ^ k \<le> n" "n < grid * 2 ^ Suc k"
    and "lo * 2 ^ Suc k \<le> n" "n \<le> hi * 2 ^ Suc k"
  shows "lo * 2 ^ Suc k \<le> round53 n \<and> round53 n \<le> hi * 2 ^ Suc k"
proof -
  let ?s = "Suc k"
  let ?q = "n div 2 ^ ?s"
  let ?r = "n mod 2 ^ ?s"
  have g: "grid * 2 ^ k = 2 ^ (52 + ?s)" "grid * 2 ^ Suc k = 2 ^ Suc (52 + ?s)"
    by (simp_all add: grid_def power_add)
  have "bit_length n = Suc (52 + ?s)"
    using assms(1,2) unfolding g by (rule bit_length_eq)
  then have bl: "bit_length n - 53 = ?s" by simp
  have n: "n = ?q * 2 ^ ?s + ?r" by (rule div_mult_mod_eq[symmetric])
  have lo: "lo \<le> ?q"
  proof -
    have "lo * 2 ^ ?s div 2 ^ ?s \<le> n div 2 ^ ?s" using assms(3) by (rule div_le_mono)
    then show ?thesis by simp
  qed
  have lo1: "lo * 2 ^ ?s \<le> ?q * 2 ^ ?s" using lo by (rule mult_le_mono1)
  have mid: "?q * 2 ^ ?s \<le> (?q + 1) * 2 ^ ?s" by simp
  have hi0: "?q * 2 ^ ?s \<le> hi * 2 ^ ?s"
  proof -
    have "?q * 2 ^ ?s \<le> n" using n by linarith
    then show ?thesis using assms(4) by (rule order_trans)
  qed
  have hi1: "(?q + 1) * 2 ^ ?s \<le> hi * 2 ^ ?s" if "0 < ?r"
  proof -
    have "?q * 2 ^ ?s < n" using n that by linarith
    then have "?q * 2 ^ ?s < hi * 2 ^ ?s" using assms(4) by (rule less_le_trans)
    then have "?q < hi" by simp
    then have "?q + 1 \<le> hi" by simp
    then show ?thesis by (rule mult_le_mono1)
  qed
  show ?thesis
  proof (cases "2 * ?r > 2 ^ ?s \<or> (2 * ?r = 2 ^ ?s \<and> odd ?q)")
    case True
    then have "0 < ?r" by (cases "?r = 0") simp_all
    from hi1[OF this] have h: "(?q + 1) * 2 ^ ?s \<le> hi * 2 ^ ?s" .
    have r: "round53 n = (?q + 1) * 2 ^ ?s"
      unfolding round53_def bl Let_def using True by (simp only: if_True)
    show ?thesis unfolding r using order_trans[OF lo1 mid] h by blast
  next
    case False
    have r: "round53 n = ?q * 2 ^ ?s"
      unfolding round53_def bl Let_def using False by (simp only: if_False)
    show ?thesis unfolding r using lo1 hi0 by blast
  qed
qed

lemma round53_pow2: "round53 (grid * 2 ^ k) = grid * 2 ^ k"
proof -
  have e: "grid * 2 ^ k = 2 ^ 52 * 2 ^ Suc k" by (simp add: grid_def)
  have "grid * 2 ^ k \<le> grid * 2 ^ k" "grid * 2 ^ k < grid * 2 ^ Suc k"
    using grid_pos by simp_all
  from round53_between[OF this, of "2 ^ 52" "2 ^ 52"] e
  show ?thesis by simp
qed

lemma fl_grid: "fl (of_nat n / of_nat grid) = of_nat (round53 n) / of_nat grid"
  using grid_pos by (simp add: fl_def)

lemma random_float_range: "0 \<le> random_float bits \<and> random_float bits < 1"
  using grid_pos by (simp add: random_float_def)

lemma uniform_unit: "uniform 0 1 (random_float bits) = random_float bits"
  using grid_pos
  by (simp add: uniform_def fl_add_def fl_mul_def random_float_def fl_grid round53_small)

text \<open>The jitter lies in \<open>[0, 1)\<close>, whatever the generator draws.\<close>

lemma jitter_range: "0 \<le> jitter rand k \<and> jitter rand k < 1"
  by (simp add: jitter_def uniform_unit random_float_range)

lemma slept_delay_grid:
  "slept_delay rand k = of_nat (round53 (grid * 2 ^ k + rand k mod grid)) / of_nat grid"
proof -
  have "(2::rat) ^ k = of_nat (grid * 2 ^ k) / of_nat grid" using grid_pos by simp
  then have b: "fl_mul base_delay (2 ^ k) = of_nat (grid * 2 ^ k) / of_nat grid"
    unfolding fl_mul_def base_delay_def mult_1 by (simp only: fl_grid round53_pow2)
  have "of_nat (grid * 2 ^ k) / of_nat grid + random_float (rand k)
        = (of_nat (grid * 2 ^ k + rand k mod grid) :: rat) / of_nat grid"
    by (simp add: random_float_def add_divide_distrib)
  then show ?thesis
    unfolding slept_delay_def jitter_def b uniform_unit fl_add_def by (simp only: fl_grid)
qed

text \<open>
  The delay after attempt \<open>k\<close> lies between \<open>2 ^ k\<close> and \<open>2 ^ k + 1\<close>, both ends included:
  the sum of \<open>2 ^ k\<close> and a jitter just below 1 can round up to \<open>2 ^ k + 1\<close>.
\<close>

lemma slept_delay_bounds:
  assumes "k \<le> 52"
  shows "2 ^ k \<le> slept_delay rand k \<and> slept_delay rand k \<le> 2 ^ k + 1"
proof -
  let ?n = "grid * 2 ^ k + rand k mod grid"
  let ?lo = "(2::nat) ^ 52"
  let ?hi = "(2::nat) ^ (52 - k) * (2 ^ k + 1)"
  have glo: "grid * 2 ^ k = ?lo * 2 ^ Suc k" by (simp add: grid_def)
  have "(2::nat) ^ (52 - k) * 2 ^ Suc k = 2 ^ (52 - k + Suc k)" by (simp only: power_add)
  also have "52 - k + Suc k = 53" using assms by simp
  finally have e: "(2::nat) ^ (52 - k) * 2 ^ Suc k = grid" by (simp add: grid_def)
  have ghi: "grid * (2 ^ k + 1) = ?hi * 2 ^ Suc k"
    by (subst e[symmetric]) (simp only: mult_ac)
  have r: "rand k mod grid < grid" using grid_pos by simp
  have ge: "grid \<le> grid * 2 ^ k" by simp
  have dbl: "grid * 2 ^ Suc k = grid * 2 ^ k + grid * 2 ^ k" by simp
  have one: "grid * (2 ^ k + 1) = grid * 2 ^ k + grid" by (simp add: algebra_simps)
  have b1: "grid * 2 ^ k \<le> ?n" by simp
  have b2: "?n < grid * 2 ^ Suc k" using r ge dbl by linarith
  have b3: "?lo * 2 ^ Suc k \<le> ?n" unfolding glo[symmetric] by simp
  have b4: "?n \<le> ?hi * 2 ^ Suc k" unfolding ghi[symmetric] one using r by linarith
  from round53_between[OF b1 b2 b3 b4]
  have n: "grid * 2 ^ k \<le> round53 ?n" "round53 ?n \<le> grid * (2 ^ k + 1)"
    unfolding glo[symmetric] ghi[symmetric] by simp_all
  have lo: "(2::rat) ^ k \<le> of_nat (round53 ?n) / of_nat grid"
  proof -
    have "(of_nat (grid * 2 ^ k) :: rat) \<le> of_nat (round53 ?n)"
      using n(1) by (simp only: of_nat_le_iff)
    then show ?thesis using grid_pos by (simp add: pos_le_divide_eq mult.commute)
  qed
  have hi: "of_nat (round53 ?n) / of_nat grid \<le> (2::rat) ^ k + 1"
  proof -
    have "(of_nat (round53 ?n) :: rat) \<le> of_nat (grid * (2 ^ k + 1))"
      using n(2) by (simp only: of_nat_le_iff)
    then show ?thesis using grid_pos by (simp add: pos_divide_le_eq algebra_simps)
  qed
  show ?thesis unfolding slept_delay_grid using lo hi by blast
qed

lemma slept_delay_edge:
  "slept_delay edge_rand 0 = 2 \<and> slept_delay edge_rand 1 = 2
   \<and> slept_delay edge_rand 2 = 4 \<and> slept_delay edge_rand 3 = 8"
  by (simp add: slept_delay_grid grid_def edge_rand_def round53_def bit_length.simps Let_def)

lemma slept_delay_half:
  "slept_delay half_rand 0 = 3 / 2 \<and> slept_delay half_rand 1 = 5 / 2
   \<and> slept_delay half_rand 2 = 9 / 2 \<and> slept_delay half_rand 3 = 17 / 2"
  by (simp add: slept_delay_grid grid_def half_rand_def round53_def bit_length.simps Let_def)

lemma jitter_edge:
  "jitter edge_rand 0 = 9007199254740991 / 9007199254740992 \<and> jitter edge_rand 1 = 0"
  unfolding jitter_def uniform_unit by (simp add: random_float_def grid_def edge_rand_def)

section \<open>Retry and back-off of one task\<close>

declare attempt_loop.simps [simp del]

lemma attempt_loop_retry:
  assumes "attempt < 4" "throttled (remote attempt)"
  shows "attempt_loop paper sh remote rand attempt =
     (fst (attempt_loop paper sh remote rand (attempt + 1)),
      Call attempt # Sleep (slept_delay rand attempt)
        # snd (attempt_loop paper sh remote rand (attempt + 1)))"
  using assms
  by (subst attempt_loop.simps)
     (auto simp: throttled_def try_body_def max_retries_def slept_delay_def jitter_def Let_def
           split: outcome.splits prod.splits)

lemma attempt_loop_exhausted:
  assumes "throttled (remote 4)"
  shows "attempt_loop paper sh remote rand 4 = (Inr (0, ''Rate limit exceeded''), [Call 4])"
  using assms
  by (subst attempt_loop.simps)
     (auto simp: throttled_def try_body_def max_retries_def split: outcome.splits prod.splits)

lemma attempt_loop_success:
  assumes "attempt < 5" "try_body paper sh (remote attempt) = Inr result"
  shows "attempt_loop paper sh remote rand attempt = (Inr result, [Call attempt])"
  using assms
  by (subst attempt_loop.simps) (simp add: max_retries_def)

lemma attempt_loop_failure:
  assumes "attempt < 5" "failed_otherwise (remote attempt)" "title_prefix paper = Inr shown"
  shows "attempt_loop paper sh remote rand attempt = (Inr (0, ''Evaluation error''), [Call attempt])"
  using assms
  by (subst attempt_loop.simps)
     (auto simp: failed_otherwise_def try_body_def max_retries_def split: outcome.splits prod.splits)

text \<open>
  Throttled attempts \<open>a, \<dots>, k - 1\<close> are each followed by a sleep and the next attempt; the
  run ends with whatever attempt \<open>k\<close> does.
\<close>

lemma attempt_loop_after_throttles:
  assumes "k < 5" and "attempt_loop paper sh remote rand k = (r, [Call k])"
  shows "a \<le> k \<Longrightarrow> (\<forall>j. a \<le> j \<and> j < k \<longrightarrow> throttled (remote j)) \<Longrightarrow>
         attempt_loop paper sh remote rand a = (r, backoff_trace rand a k @ [Call k])"
proof (induction "k - a" arbitrary: a)
  case 0
  then show ?case using assms(2) by (simp add: backoff_trace_def)
next
  case (Suc n)
  then have lt: "a < k" and le: "a + 1 \<le> k" by auto
  have thr: "throttled (remote a)" using Suc.prems(2) lt by simp
  have a4: "a < 4" using lt assms(1) by simp
  have ih: "attempt_loop paper sh remote rand (a + 1) = (r, backoff_trace rand (a + 1) k @ [Call k])"
    using Suc.hyps(1)[of "a + 1"] Suc.hyps(2) Suc.prems(2) le by simp
  have unf: "backoff_trace rand a k =
      Call a # Sleep (slept_delay rand a) # backoff_trace rand (a + 1) k"
    using lt by (simp add: backoff_trace_def upt_conv_Cons)
  show ?case
    using ih by (simp add: attempt_loop_retry[of a remote, OF a4 thr] unf)
qed

lemma backoff_trace_4:
  "backoff_trace rand 0 4 =
     [Call 0, Sleep (slept_delay rand 0), Call 1, Sleep (slept_delay rand 1),
      Call 2, Sleep (slept_delay rand 2), Call 3, Sleep (slept_delay rand 3)]"
  by (simp add: backoff_trace_def upt_conv_Cons eval_nat_numeral)

text \<open>Five throttled attempts: four sleeps, five calls, the sentinel of the rate limit.\<close>

lemma five_throttled_attempts:
  assumes "build_prompt paper research_context user_interests = Inr pr"
    and "\<forall>k < 5. throttled (remote pr k)"
  shows "evaluate_single_paper paper research_context user_interests show_sample remote rand
         = (Inr (0, ''Rate limit exceeded''),
            [Call 0, Sleep (slept_delay rand 0), Call 1, Sleep (slept_delay rand 1),
             Call 2, Sleep (slept_delay rand 2), Call 3, Sleep (slept_delay rand 3), Call 4])"
proof -
  have last: "attempt_loop paper show_sample (remote pr) rand 4
                = (Inr (0, ''Rate limit exceeded''), [Call 4])"
    using assms(2) by (intro attempt_loop_exhausted) simp
  have "attempt_loop paper show_sample (remote pr) rand 0
        = (Inr (0, ''Rate limit exceeded''), backoff_trace rand 0 4 @ [Call 4])"
    using assms(2) by (intro attempt_loop_after_throttles[OF _ last]) simp_all
  then show ?thesis
    by (simp add: evaluate_single_paper_def assms(1) backoff_trace_4)
qed

lemma build_prompt_paper0:
  "build_prompt paper0 ''ctx'' ''int'' =
     Inr \<lparr>p_context = ''ctx'', p_interests = ''int'', p_title = Str ''Attention'',
          p_abstract = Str ''We study.''\<rparr>"
  by (simp add: build_prompt_def paper0_def)

lemma title_prefix_paper0: "title_prefix paper0 = Inr ''Attention''"
  by (simp add: title_prefix_def paper0_def)

lemma throttled_throttling_remote: "throttled (throttling_remote pr k)"
  unfolding throttled_def throttling_remote_def outcome.case exn_str.simps by code_simp

lemma connection_error_test:
  "\<not> contains ''rate_limit'' (lower ''Connection error.'') \<and> \<not> contains ''429'' ''Connection error.''"
  by code_simp

lemma context_length_error_test:
  "\<not> contains ''rate_limit'' (lower context_length_error) \<and> contains ''429'' context_length_error"
  by code_simp

lemma throttled_rejecting_remote: "throttled (rejecting_remote pr k)"
  using context_length_error_test
  by (simp add: throttled_def rejecting_remote_def is_rate_limit_def)

lemma parse_recovering_reply:
  "parse_response ''SCORE: 9 REASON: Central to the topic.'' = Inr (9, ''Central to the topic.'')"
  by code_simp

text \<open>
  C2, as the code has it. A throttled attempt is retried, up to five attempts in all. The
  sleep after attempt \<open>k\<close> is the double nearest to \<open>2 ^ k\<close> plus the jitter, and the jitter,
  \<open>random.uniform(0, 1)\<close>, lies in \<open>[0, 1)\<close>. Between five attempts there are four delays,
  with bases 1, 2, 4 and 8; no delay of 16 is ever slept. When the first four attempts
  are throttled and the fifth returns a reply, the reply is parsed and the task returns
  the parsed result after exactly five calls. Delay \<open>k\<close> lies between \<open>2 ^ k\<close> and
  \<open>2 ^ k + 1\<close>, so the four delays never decrease and the last three increase strictly;
  the first two can both be 2. (The title is a string, as the data model says, so that
  the sample print cannot fail.)
\<close>

theorem C2_retry_then_success:
  assumes "build_prompt paper research_context user_interests = Inr pr"
    and "title_prefix paper = Inr shown"
    and "\<forall>k < 4. throttled (remote pr k)"
    and "remote pr 4 = Returned content"
  shows "\<exists>result. parse_response content = Inr result
       \<and> evaluate_single_paper paper research_context user_interests show_sample remote rand
         = (Inr result,
            [Call 0, Sleep (slept_delay rand 0), Call 1, Sleep (slept_delay rand 1),
             Call 2, Sleep (slept_delay rand 2), Call 3, Sleep (slept_delay rand 3), Call 4])
       \<and> (\<forall>k. slept_delay rand k = fl_add (fl_mul base_delay (2 ^ k)) (jitter rand k)
              \<and> 0 \<le> jitter rand k \<and> jitter rand k < 1)
       \<and> 1 \<le> slept_delay rand 0 \<and> slept_delay rand 0 \<le> 2
       \<and> 2 \<le> slept_delay rand 1 \<and> slept_delay rand 1 \<le> 3
       \<and> 4 \<le> slept_delay rand 2 \<and> slept_delay rand 2 \<le> 5
       \<and> 8 \<le> slept_delay rand 3 \<and> slept_delay rand 3 \<le> 9
       \<and> slept_delay rand 0 \<le> slept_delay rand 1
       \<and> slept_delay rand 1 < slept_delay rand 2
       \<and> slept_delay rand 2 < slept_delay rand 3"
proof -
  from parse_response_returns[of content] obtain result
    where parsed: "parse_response content = Inr result" by auto
  have title: "paper ''title'' \<noteq> None"
    using assms(1) by (auto simp: build_prompt_def split: option.splits)
  have body: "try_body paper show_sample (remote pr 4) = Inr result"
    using title assms(2,4) parsed by (cases result) (auto simp: try_body_def bind_exn_def)
  have last: "attempt_loop paper show_sample (remote pr) rand 4 = (Inr result, [Call 4])"
    using body by (intro attempt_loop_success) simp_all
  have "attempt_loop paper show_sample (remote pr) rand 0
        = (Inr result, backoff_trace rand 0 4 @ [Call 4])"
    using assms(3) by (intro attempt_loop_after_throttles[OF _ last]) simp_all
  then have run: "evaluate_single_paper paper research_context user_interests show_sample remote rand
         = (Inr result,
            [Call 0, Sleep (slept_delay rand 0), Call 1, Sleep (slept_delay rand 1),
             Call 2, Sleep (slept_delay rand 2), Call 3, Sleep (slept_delay rand 3), Call 4])"
    by (simp add: evaluate_single_paper_def assms(1) backoff_trace_4)
  have j: "\<forall>k. slept_delay rand k = fl_add (fl_mul base_delay (2 ^ k)) (jitter rand k)
              \<and> 0 \<le> jitter rand k \<and> jitter rand k < 1"
    using jitter_range by (simp add: slept_delay_def)
  have d: "1 \<le> slept_delay rand 0" "slept_delay rand 0 \<le> 2"
          "2 \<le> slept_delay rand 1" "slept_delay rand 1 \<le> 3"
          "4 \<le> slept_delay rand 2" "slept_delay rand 2 \<le> 5"
          "8 \<le> slept_delay rand 3" "slept_delay rand 3 \<le> 9"
    using slept_delay_bounds[of 0 rand] slept_delay_bounds[of 1 rand]
          slept_delay_bounds[of 2 rand] slept_delay_bounds[of 3 rand]
    by simp_all
  have m: "slept_delay rand 0 \<le> slept_delay rand 1"
          "slept_delay rand 1 < slept_delay rand 2"
          "slept_delay rand 2 < slept_delay rand 3"
    using d by simp_all
  show ?thesis using parsed run j d m by blast
qed

theorem C2_retry_then_success_witness:
  "evaluate_single_paper paper0 ''ctx'' ''int'' True recovering_remote half_rand
     = (Inr (9, ''Central to the topic.''),
        [Call 0, Sleep (3 / 2), Call 1, Sleep (5 / 2), Call 2, Sleep (9 / 2),
         Call 3, Sleep (17 / 2), Call 4])"
proof -
  let ?pr = "\<lparr>p_context = ''ctx'', p_interests = ''int'', p_title = Str ''Attention'',
             p_abstract = Str ''We study.''\<rparr>"
  have thr: "\<forall>k < 4. throttled (recovering_remote ?pr k)"
    using throttled_throttling_remote by (simp add: recovering_remote_def throttling_remote_def)
  have ret: "recovering_remote ?pr 4 = Returned ''SCORE: 9 REASON: Central to the topic.''"
    by (simp add: recovering_remote_def)
  from C2_retry_then_success[where remote = recovering_remote and show_sample = True
         and rand = half_rand, OF build_prompt_paper0 title_prefix_paper0 thr ret]
  show ?thesis by (simp add: parse_recovering_reply slept_delay_half[unfolded One_nat_def])
qed

text \<open>
  C2, as the claim states it, fails twice. With every attempt throttled there are four
  delays and no fifth, of 16. And when the generator draws the largest jitter first and
  zero next, both in \<open>[0, 1)\<close>, the first two delays are 2 and 2: the sum of 1 and the
  jitter rounds up to 2, so the delays are not strictly increasing.
\<close>

theorem C2_no_delay_of_16:
  "evaluate_single_paper paper0 ''ctx'' ''int'' False throttling_remote edge_rand
     = (Inr (0, ''Rate limit exceeded''),
        [Call 0, Sleep 2, Call 1, Sleep 2, Call 2, Sleep 4, Call 3, Sleep 8, Call 4])
   \<and> jitter edge_rand 0 = 9007199254740991 / 9007199254740992
   \<and> jitter edge_rand 1 = 0"
  using five_throttled_attempts[where remote = throttling_remote and show_sample = False
          and rand = edge_rand, OF build_prompt_paper0]
  by (simp add: throttled_throttling_remote slept_delay_edge[unfolded One_nat_def]
        jitter_edge[unfolded One_nat_def])

text \<open>
  C3. When the remote call is throttled on all five attempts, the task returns the score
  0 with the reason \<open>Rate limit exceeded\<close>; it raises nothing, and its trace ends with the
  fifth call: there is no sixth.
\<close>

theorem C3_rate_limit_exhausted:
  assumes "build_prompt paper research_context user_interests = Inr pr"
    and "\<forall>k < 5. throttled (remote pr k)"
  shows "evaluate_single_paper paper research_context user_interests show_sample remote rand
         = (Inr (0, ''Rate limit exceeded''),
            [Call 0, Sleep (slept_delay rand 0), Call 1, Sleep (slept_delay rand 1),
             Call 2, Sleep (slept_delay rand 2), Call 3, Sleep (slept_delay rand 3), Call 4])"
  using assms by (rule five_throttled_attempts)

theorem C3_rate_limit_exhausted_witness:
  "evaluate_single_paper paper0 ''ctx'' ''int'' False throttling_remote half_rand
     = (Inr (0, ''Rate limit exceeded''),
        [Call 0, Sleep (3 / 2), Call 1, Sleep (5 / 2), Call 2, Sleep (9 / 2),
         Call 3, Sleep (17 / 2), Call 4])"
  using C3_rate_limit_exhausted[where remote = throttling_remote and show_sample = False
          and rand = half_rand, OF build_prompt_paper0]
  by (simp add: throttled_throttling_remote slept_delay_half[unfolded One_nat_def])

text \<open>
  C4, as the code has it. The handler tells throttling from other failures by the text of
  the exception alone: a failure whose text contains neither \<open>rate_limit\<close> (in any letter
  case) nor \<open>429\<close> is not retried. The task then returns the score 0 with the reason
  \<open>Evaluation error\<close> and raises nothing, and the failing call is the last one of the
  trace; when the first call fails so (\<open>k = 0\<close>), the trace is that single call. (The title
  is a string, as the data model says: the handler prints its first 50 characters.)
\<close>

theorem C4_other_failure_not_retried:
  assumes "build_prompt paper research_context user_interests = Inr pr"
    and "title_prefix paper = Inr shown"
    and "k < 5"
    and "\<forall>j < k. throttled (remote pr j)"
    and "remote pr k = Raised e"
    and "\<not> contains ''rate_limit'' (lower (exn_str e))"
    and "\<not> contains ''429'' (exn_str e)"
  shows "evaluate_single_paper paper research_context user_interests show_sample remote rand
         = (Inr (0, ''Evaluation error''), backoff_trace rand 0 k @ [Call k])"
proof -
  have failed: "failed_otherwise (remote pr k)"
    using assms(5,6,7) by (simp add: failed_otherwise_def is_rate_limit_def)
  have last: "attempt_loop paper show_sample (remote pr) rand k
                = (Inr (0, ''Evaluation error''), [Call k])"
    using assms(2,3) failed by (intro attempt_loop_failure[where shown = shown]) simp_all
  have "attempt_loop paper show_sample (remote pr) rand 0
        = (Inr (0, ''Evaluation error''), backoff_trace rand 0 k @ [Call k])"
    using assms(3,4) by (intro attempt_loop_after_throttles[OF _ last]) simp_all
  then show ?thesis
    by (simp add: evaluate_single_paper_def assms(1))
qed

theorem C4_other_failure_not_retried_witness:
  "evaluate_single_paper paper0 ''ctx'' ''int'' False failing_remote half_rand
     = (Inr (0, ''Evaluation error''), [Call 0])"
proof -
  let ?pr = "\<lparr>p_context = ''ctx'', p_interests = ''int'', p_title = Str ''Attention'',
             p_abstract = Str ''We study.''\<rparr>"
  have r: "failing_remote ?pr 0 = Raised (RemoteError ''Connection error.'')"
    by (simp add: failing_remote_def)
  have t: "\<not> contains ''rate_limit'' (lower (exn_str (RemoteError ''Connection error.'')))"
          "\<not> contains ''429'' (exn_str (RemoteError ''Connection error.''))"
    using connection_error_test by simp_all
  from C4_other_failure_not_retried[where k = 0 and remote = failing_remote
         and show_sample = False and rand = half_rand,
         OF build_prompt_paper0 title_prefix_paper0 _ _ r t]
  show ?thesis by (simp add: backoff_trace_def)
qed

text \<open>
  C4, as the claim states it, fails. A request rejected for its length (status 400) is not
  a throttling signal, but the text of the error contains the digits \<open>429\<close> (in
  \<open>142900 tokens\<close>) and no \<open>rate_limit\<close>. The task does not resolve at once to
  \<open>Evaluation error\<close>: it retries with back-off through five calls and returns
  \<open>Rate limit exceeded\<close>.
\<close>

theorem C4_rejected_request_retried:
  "evaluate_single_paper paper0 ''ctx'' ''int'' False rejecting_remote half_rand
     = (Inr (0, ''Rate limit exceeded''),
        [Call 0, Sleep (3 / 2), Call 1, Sleep (5 / 2), Call 2, Sleep (9 / 2),
         Call 3, Sleep (17 / 2), Call 4])
   \<and> contains ''429'' context_length_error
   \<and> \<not> contains ''rate_limit'' (lower context_length_error)"
  using five_throttled_attempts[where remote = rejecting_remote and show_sample = False
          and rand = half_rand, OF build_prompt_paper0]
  by (simp add: throttled_rejecting_remote slept_delay_half[unfolded One_nat_def]
        context_length_error_test)

section \<open>Filter, order and frame of the engine\<close>

lemma attach_other_key:
  "k \<noteq> ''relevance_score'' \<Longrightarrow> k \<noteq> ''relevance_reason'' \<Longrightarrow> attach h p s r q k = h q k"
  by (simp add: attach_def)

lemma attach_other_ref: "q \<noteq> p \<Longrightarrow> attach h p s r q = h q"
  by (simp add: attach_def)





lemma collect_frame_key:
  "collect threshold papers results order h rel = (h', res) \<Longrightarrow>
   k \<noteq> ''relevance_score'' \<Longrightarrow> k \<noteq> ''relevance_reason'' \<Longrightarrow> h' q k = h q k"
proof (induction order arbitrary: h rel)
  case Nil
  then show ?case by simp
next
  case (Cons i order)
  then show ?case
    by (auto simp: Let_def attach_other_key split: sum.splits prod.splits if_splits)
qed

lemma collect_returned:
  "collect threshold papers results order h rel = (h', Inr out) \<Longrightarrow>
   out = rel @ map ((!) papers) (filter (\<lambda>i. passes threshold (results i)) order)"
proof (induction order arbitrary: h rel)
  case Nil
  then show ?case by simp
next
  case (Cons i order)
  show ?case
  proof (cases "results i")
    case (Inl e)
    then have np: "\<not> passes threshold (results i)" by (simp add: passes_def)
    from Cons.prems Inl have "collect threshold papers results order h rel = (h', Inr out)"
      by (simp add: Let_def split: sum.splits)
    from Cons.IH[OF this] np show ?thesis by simp
  next
    case (Inr sr)
    obtain s r where sr: "sr = (s, r)" by (cases sr)
    show ?thesis
    proof (cases "threshold \<le> s")
      case True
      then have p: "passes threshold (results i)" using Inr sr by (simp add: passes_def)
      from Cons.prems Inr sr True
      have "collect threshold papers results order (attach h (papers ! i) s r) (rel @ [papers ! i]) = (h', Inr out)"
        by (simp add: Let_def)
      from Cons.IH[OF this] p show ?thesis by simp
    next
      case False
      then have np: "\<not> passes threshold (results i)" using Inr sr by (simp add: passes_def)
      from Cons.prems Inr sr False
      have "collect threshold papers results order h rel = (h', Inr out)"
        by (simp add: Let_def)
      from Cons.IH[OF this] np show ?thesis by simp
    qed
  qed
qed

lemma collect_frame_ref:
  "collect threshold papers results order h rel = (h', Inr out) \<Longrightarrow> q \<notin> set out \<Longrightarrow> h' q = h q"
proof (induction order arbitrary: h rel)
  case Nil
  then show ?case by simp
next
  case (Cons i order)
  show ?case
  proof (cases "results i")
    case (Inl e)
    with Cons show ?thesis by (auto simp: Let_def split: sum.splits)
  next
    case (Inr sr)
    obtain s r where sr: "sr = (s, r)" by (cases sr)
    show ?thesis
    proof (cases "threshold \<le> s")
      case True
      with Cons.prems Inr sr
      have c: "collect threshold papers results order (attach h (papers ! i) s r) (rel @ [papers ! i]) = (h', Inr out)"
        by (simp add: Let_def)
      from collect_returned[OF c] have "papers ! i \<in> set out" by simp
      with Cons.prems(2) have "q \<noteq> papers ! i" by auto
      with Cons.IH[OF c Cons.prems(2)] show ?thesis by (simp add: attach_other_ref)
    next
      case False
      with Cons Inr sr show ?thesis by (simp add: Let_def)
    qed
  qed
qed





lemma keys_of_snd: "keys_of h ps = Inr keyed \<Longrightarrow> map snd keyed = ps"
proof (induction ps arbitrary: keyed)
  case Nil
  then show ?case by simp
next
  case (Cons p ps)
  then show ?case
    by (auto simp: bind_exn_def split: sum.splits)
qed

lemma set_sort_descending: "set (sort_descending keyed) = set (map snd keyed)"
  by (simp add: sort_descending_def)



text \<open>An empty batch gives an empty result and leaves the heap as it is.\<close>

lemma evaluate_papers_empty:
  "evaluate_papers threshold h [] research_context user_interests show_sample remote rand []
     = (h, Inr [])"
  by (simp add: evaluate_papers_def bind_exn_def sort_descending_def)


lemma attach_twice:
  "((((m(''relevance_score'' \<mapsto> Float s))(''relevance_reason'' \<mapsto> Str r))
       (''relevance_score'' \<mapsto> Float s'))(''relevance_reason'' \<mapsto> Str r'))
   = ((m(''relevance_score'' \<mapsto> Float s'))(''relevance_reason'' \<mapsto> Str r'))"
  by (rule ext) simp

lemma stores_mono:
  "stores threshold papers results order h h' p \<Longrightarrow>
   stores threshold papers results (i # order) h h' p"
  by (auto simp: stores_def)

lemma stores_head:
  assumes "results i = Inr (s, r)" "threshold \<le> s"
    and "h' (papers ! i) = attach h (papers ! i) s r (papers ! i)"
  shows "stores threshold papers results (i # order) h h' (papers ! i)"
  using assms by (auto simp: stores_def attach_def)

lemma stores_after_attach:
  assumes "results i = Inr (s, r)" "threshold \<le> s"
    and "stores threshold papers results order (attach h (papers ! i) s r) h' p"
  shows "stores threshold papers results (i # order) h h' p"
proof -
  from assms(3) obtain j where j: "j \<in> set order" "papers ! j = p"
    and c: "case results j of
              Inr (score, reason) \<Rightarrow> threshold \<le> score \<and>
                h' p = ((attach h (papers ! i) s r p)(''relevance_score'' \<mapsto> Float score))
                         (''relevance_reason'' \<mapsto> Str reason)
            | Inl e \<Rightarrow> False"
    by (auto simp: stores_def)
  then obtain sj rj where rj: "results j = Inr (sj, rj)" "threshold \<le> sj"
    and hp: "h' p = ((attach h (papers ! i) s r p)(''relevance_score'' \<mapsto> Float sj))
                       (''relevance_reason'' \<mapsto> Str rj)"
    by (auto split: sum.splits)
  have "h' p = ((h p)(''relevance_score'' \<mapsto> Float sj))(''relevance_reason'' \<mapsto> Str rj)"
  proof (cases "p = papers ! i")
    case True
    then show ?thesis using hp by (simp add: attach_def attach_twice)
  next
    case False
    then show ?thesis using hp by (simp add: attach_other_ref)
  qed
  then show ?thesis using j rj by (auto simp: stores_def)
qed

lemma collect_stores:
  "collect threshold papers results order h rel = (h', res) \<Longrightarrow>
   h' p = h p \<or> stores threshold papers results order h h' p"
proof (induction order arbitrary: h rel)
  case Nil
  then show ?case by simp
next
  case (Cons i order)
  show ?case
  proof (cases "results i")
    case (Inl e)
    show ?thesis
    proof (cases "title_prefix (h (papers ! i))")
      case (Inl e')
      with Cons.prems \<open>results i = Inl e\<close> show ?thesis by (simp add: Let_def)
    next
      case (Inr shown)
      with Cons.prems \<open>results i = Inl e\<close>
      have "collect threshold papers results order h rel = (h', res)" by (simp add: Let_def)
      from Cons.IH[OF this] show ?thesis using stores_mono by blast
    qed
  next
    case (Inr sr)
    obtain s r where sr: "sr = (s, r)" by (cases sr)
    show ?thesis
    proof (cases "threshold \<le> s")
      case True
      with Cons.prems Inr sr
      have c: "collect threshold papers results order (attach h (papers ! i) s r) (rel @ [papers ! i]) = (h', res)"
        by (simp add: Let_def)
      from Cons.IH[OF c]
      consider "h' p = attach h (papers ! i) s r p"
        | "stores threshold papers results order (attach h (papers ! i) s r) h' p" by blast
      then show ?thesis
      proof cases
        case 1
        show ?thesis
        proof (cases "p = papers ! i")
          case same: True
          have "stores threshold papers results (i # order) h h' (papers ! i)"
            using Inr sr True 1 same by (intro stores_head) simp_all
          then show ?thesis using same by simp
        next
          case False
          then show ?thesis using 1 by (simp add: attach_other_ref)
        qed
      next
        case 2
        have "stores threshold papers results (i # order) h h' p"
          using Inr sr True 2 by (intro stores_after_attach) simp_all
        then show ?thesis by simp
      qed
    next
      case False
      with Cons.prems Inr sr
      have "collect threshold papers results order h rel = (h', res)" by (simp add: Let_def)
      from Cons.IH[OF this] show ?thesis using stores_mono by blast
    qed
  qed
qed

lemma collect_stores_returned:
  "collect threshold papers results order h rel = (h', Inr out) \<Longrightarrow>
   \<exists>i \<in> set order. papers ! i = p \<and> passes threshold (results i) \<Longrightarrow>
   stores threshold papers results order h h' p"
proof (induction order arbitrary: h rel)
  case Nil
  then show ?case by simp
next
  case (Cons i order)
  show ?case
  proof (cases "passes threshold (results i)")
    case False
    then have rest: "\<exists>j \<in> set order. papers ! j = p \<and> passes threshold (results j)"
      using Cons.prems(2) by auto
    from False Cons.prems(1)
    have "collect threshold papers results order h rel = (h', Inr out)"
      by (auto simp: Let_def passes_def split: sum.splits prod.splits if_splits)
    from Cons.IH[OF this rest] show ?thesis by (rule stores_mono)
  next
    case True
    then obtain s r where sr: "results i = Inr (s, r)" "threshold \<le> s"
      by (auto simp: passes_def split: sum.splits)
    with Cons.prems(1)
    have c: "collect threshold papers results order (attach h (papers ! i) s r) (rel @ [papers ! i]) = (h', Inr out)"
      by (simp add: Let_def)
    show ?thesis
    proof (cases "\<exists>j \<in> set order. papers ! j = p \<and> passes threshold (results j)")
      case later: True
      from Cons.IH[OF c later] show ?thesis using sr by (intro stores_after_attach)
    next
      case none: False
      then have "p = papers ! i" using Cons.prems(2) by auto
      from collect_stores[OF c, of p]
      consider "h' p = attach h (papers ! i) s r p"
        | "stores threshold papers results order (attach h (papers ! i) s r) h' p" by blast
      then show ?thesis
      proof cases
        case 1
        have "stores threshold papers results (i # order) h h' (papers ! i)"
          using sr 1 \<open>p = papers ! i\<close> by (intro stores_head) simp_all
        then show ?thesis using \<open>p = papers ! i\<close> by simp
      next
        case 2
        then show ?thesis using sr by (intro stores_after_attach)
      qed
    qed
  qed
qed

text \<open>
  C9, as the code has it. \<open>evaluate_papers\<close> makes no copy: it stores into the caller's own
  objects. In every run, also one that raises, an object is either as it was passed in or
  has been stored to, that is, its fields \<open>relevance_score\<close> and \<open>relevance_reason\<close> now hold
  the score and the reason of one of its tasks that reached the threshold, whatever they
  held before, and all its other fields are as before. When the function returns, the
  item of every task that reached the threshold is returned, every returned object has
  been stored to, and every other object is as it was passed in.
\<close>

theorem C9_only_relevance_fields_written:
  assumes "evaluate_papers threshold h papers research_context user_interests show_sample remote rand order
             = (h', res)"
  shows "(\<forall>p. h' p = h p
            \<or> stores threshold papers
                 (task_result h papers research_context user_interests show_sample remote rand)
                 order h h' p)
       \<and> (\<forall>out. res = Inr out \<longrightarrow>
            (\<forall>i \<in> set order.
                passes threshold
                  (task_result h papers research_context user_interests show_sample remote rand i)
                \<longrightarrow> papers ! i \<in> set out)
          \<and> (\<forall>p. (p \<in> set out \<longrightarrow>
                    stores threshold papers
                      (task_result h papers research_context user_interests show_sample remote rand)
                      order h h' p)
                \<and> (p \<notin> set out \<longrightarrow> h' p = h p)))"
proof -
  let ?res = "task_result h papers research_context user_interests show_sample remote rand"
  obtain h1 r1 where c: "collect threshold papers ?res order h [] = (h1, r1)"
    by (cases "collect threshold papers ?res order h []")
  have h1: "h' = h1" using assms c by (auto simp: evaluate_papers_def split: sum.splits)
  have any: "\<forall>p. h' p = h p \<or> stores threshold papers ?res order h h' p"
    using collect_stores[OF c] h1 by blast
  have ret: "(\<forall>i \<in> set order. passes threshold (?res i) \<longrightarrow> papers ! i \<in> set out)
      \<and> (\<forall>p. (p \<in> set out \<longrightarrow> stores threshold papers ?res order h h' p)
             \<and> (p \<notin> set out \<longrightarrow> h' p = h p))" if "res = Inr out" for out
  proof -
    from assms c that obtain rel keyed where r: "r1 = Inr rel" "keys_of h1 rel = Inr keyed"
        "out = sort_descending keyed"
      by (auto simp: evaluate_papers_def bind_exn_def split: sum.splits)
    from keys_of_snd[OF r(2)] r(3) have so: "set out = set rel" by (simp add: set_sort_descending)
    have c': "collect threshold papers ?res order h [] = (h', Inr rel)" using c r(1) h1 by simp
    from collect_returned[OF c']
    have rel: "set rel = {papers ! i | i. i \<in> set order \<and> passes threshold (?res i)}" by auto
    have a: "\<forall>i \<in> set order. passes threshold (?res i) \<longrightarrow> papers ! i \<in> set out"
      using so rel by auto
    have b: "stores threshold papers ?res order h h' p" if "p \<in> set out" for p
    proof -
      from that so rel have "\<exists>i \<in> set order. papers ! i = p \<and> passes threshold (?res i)" by auto
      from collect_stores_returned[OF c' this] show ?thesis .
    qed
    have d: "h' p = h p" if "p \<notin> set out" for p
      using collect_frame_ref[OF c'] that so by simp
    from a b d show ?thesis by blast
  qed
  from any ret show ?thesis by blast
qed

section \<open>The interpreter on concrete replies\<close>


text \<open>
  C7. For the empty reply no reason can be extracted, and the interpreter returns the
  empty string as the reason: the default \<open>No reason provided\<close>, assigned first, has
  been overwritten by the first-100-characters fallback.
\<close>

theorem C7_empty_reply:
  "parse_response [] = Inr (0, [])
   \<and> search reason_rx [] = None
   \<and> [] \<noteq> ''No reason provided''"
  by code_simp

text \<open>
  C8. The labelled strategies do not clamp: the score of \<open>SCORE: 15\<close> is 15, and the score
  of \<open>rating: 12\<close> is 12, both above 10.
\<close>

theorem C8_labelled_score_unclamped:
  "parse_response ''SCORE: 15'' = Inr (15, ''SCORE: 15'')
   \<and> parse_response ''rating: 12'' = Inr (12, ''rating: 12'')
   \<and> (10 :: rat) < 12"
  by code_simp

text \<open>
  The same on two replies, with the reason: 9 for \<open>9.7\<close>, and 9 for a sentence whose first
  number is \<open>9.7\<close>.
\<close>

lemma fraction_discarded_replies:
  "parse_response ''9.7'' = Inr (9, ''9.7'')
   \<and> parse_score ''10.5'' = Inr 10
   \<and> map_option rest (search num_rx ''9.7'') = Some []"
  by code_simp

section \<open>The engine on a sample batch\<close>

lemma sample_batch_run:
  "snd (evaluate_papers 7 heap1 [0, 1] ''ctx'' ''int'' never_show sample_remote sample_rand [1, 0]) = Inr [0]"
  by code_simp


text \<open>
  C9, as the claim states it, fails. The first item of the sample batch is returned as the
  very object that was passed in (reference 0), now with a \<open>relevance_reason\<close> it did not
  have, and its own field \<open>relevance_score\<close> has been overwritten.
\<close>

theorem C9_item_changed_in_place:
  "fst (evaluate_papers 7 heap1 [0, 1] ''ctx'' ''int'' never_show sample_remote sample_rand [1, 0])
       0 ''relevance_score'' = Some (Float 9)
   \<and> heap1 0 ''relevance_score'' = Some (Str ''unrated'')
   \<and> fst (evaluate_papers 7 heap1 [0, 1] ''ctx'' ''int'' never_show sample_remote sample_rand [1, 0])
       0 ''relevance_reason'' = Some (Str ''Central to the topic.'')
   \<and> heap1 0 ''relevance_reason'' = None
   \<and> snd (evaluate_papers 7 heap1 [0, 1] ''ctx'' ''int'' never_show sample_remote sample_rand [1, 0])
       = Inr [0]"
  by code_simp

lemma sample_batch_first_task:
  "task_result heap1 [0, 1] ''ctx'' ''int'' never_show sample_remote sample_rand 0
     = Inr (9, ''Central to the topic.'')"
  by code_simp

theorem C9_only_relevance_fields_written_witness:
  "fst (evaluate_papers 7 heap1 [0, 1] ''ctx'' ''int'' never_show sample_remote sample_rand [1, 0]) 0
     = ((heap1 0)(''relevance_score'' \<mapsto> Float 9))(''relevance_reason'' \<mapsto> Str ''Central to the topic.'')
   \<and> fst (evaluate_papers 7 heap1 [0, 1] ''ctx'' ''int'' never_show sample_remote sample_rand [1, 0]) 1
       = heap1 1"
proof -
  let ?E = "evaluate_papers 7 heap1 [0, 1] ''ctx'' ''int'' never_show sample_remote sample_rand [1, 0]"
  let ?res = "task_result heap1 [0, 1] ''ctx'' ''int'' never_show sample_remote sample_rand"
  have "?E = (fst ?E, snd ?E)" by simp
  from C9_only_relevance_fields_written[OF this] sample_batch_run
  have st: "stores 7 [0, 1] ?res [1, 0] heap1 (fst ?E) 0" and un: "fst ?E 1 = heap1 1"
    by simp_all
  from st sample_batch_first_task
  have "fst ?E 0 = ((heap1 0)(''relevance_score'' \<mapsto> Float 9))
                     (''relevance_reason'' \<mapsto> Str ''Central to the topic.'')"
    by (simp add: stores_def)
  with un show ?thesis by simp
qed


section \<open>The fallback strategy on concrete replies\<close>

lemma leading_zero_no_label:
  "Option.is_none (search score_rx ''07'') \<and> Option.is_none (search alt_rx ''07'')"
  by code_simp

text \<open>
  C6, as the claim states it, fails. In \<open>07\<close> no label matches, and \<open>07\<close> is a standalone
  integer token whose value, 7, lies between 0 and 10; the score is 0, not 7: the pattern
  accepts the spellings \<open>0\<close> to \<open>9\<close> and \<open>10\<close> only.
\<close>

theorem C6_leading_zero:
  "search score_rx ''07'' = None
   \<and> search alt_rx ''07'' = None
   \<and> first_token value_in_range None ''07'' = Some ''07''
   \<and> token_score (Some ''07'') = 7
   \<and> parse_score ''07'' = Inr 0"
proof -
  have "first_token value_in_range None ''07'' = Some ''07''
        \<and> token_score (Some ''07'') = 7 \<and> parse_score ''07'' = Inr 0"
    by code_simp
  with leading_zero_no_label show ?thesis by (simp add: Option.is_none_def)
qed

lemma plain_reply_no_label:
  "Option.is_none (search score_rx ''This paper discusses 7 relevant points about transformers.'')
   \<and> Option.is_none (search alt_rx ''This paper discusses 7 relevant points about transformers.'')"
  by code_simp

lemma plain_reply_token:
  "token_score (first_token spelled_in_range None
      ''This paper discusses 7 relevant points about transformers.'') = 7"
  by code_simp

theorem C6_fallback_first_token_witness:
  "parse_score ''This paper discusses 7 relevant points about transformers.'' = Inr 7"
  using C6_fallback_first_token[of "''This paper discusses 7 relevant points about transformers.''"]
        plain_reply_no_label plain_reply_token
  by (simp add: Option.is_none_def)

text \<open>
  C10, as the claim states it, fails. In \<open>12.5 and 9.7\<close> no label matches and the first
  number between 0 and 10 is the decimal 9.7, but the score is 5, not 9: the point is a
  word boundary, so the \<open>5\<close> after the point of 12.5 is the first token the pattern accepts.
\<close>

lemma earlier_fraction_no_label:
  "Option.is_none (search score_rx ''12.5 and 9.7'')
   \<and> Option.is_none (search alt_rx ''12.5 and 9.7'')"
  by code_simp

theorem C10_earlier_fraction_taken:
  "search score_rx ''12.5 and 9.7'' = None
   \<and> search alt_rx ''12.5 and 9.7'' = None
   \<and> parse_score ''12.5 and 9.7'' = Inr 5
   \<and> first_token_after spelled_in_range None ''12.5 and 9.7'' = Some (''5'', '' and 9.7'')"
proof -
  have "parse_score ''12.5 and 9.7'' = Inr 5
        \<and> first_token_after spelled_in_range None ''12.5 and 9.7'' = Some (''5'', '' and 9.7'')"
    by code_simp
  with earlier_fraction_no_label show ?thesis by (simp add: Option.is_none_def)
qed

lemma decimal_in_prose_no_label:
  "Option.is_none (search score_rx ''Relevance about 9.7 overall'')
   \<and> Option.is_none (search alt_rx ''Relevance about 9.7 overall'')"
  by code_simp

lemma decimal_in_prose_token:
  "first_token_after spelled_in_range None ''Relevance about 9.7 overall''
     = Some (''9'', ''.7 overall'')"
  by code_simp

theorem C10_fraction_discarded_witness:
  "parse_score ''Relevance about 9.7 overall'' = Inr 9"
proof -
  have n: "search score_rx ''Relevance about 9.7 overall'' = None"
          "search alt_rx ''Relevance about 9.7 overall'' = None"
    using decimal_in_prose_no_label by (simp_all add: Option.is_none_def)
  have t: "first_token_after spelled_in_range None ''Relevance about 9.7 overall''
             = Some (''9'', CHR ''.'' # ''7'' @ '' overall'')"
    using decimal_in_prose_token by simp
  have w: "case '' overall'' of [] \<Rightarrow> True | c # cs \<Rightarrow> \<not> is_word c"
    by (simp add: is_word_def)
  from C10_fraction_discarded[OF n t _ _ w]
  show ?thesis by (simp add: is_digit_def dec_value_def digit_val_def)
qed

end
